theory Spec2Isabelle
  imports Complex_Main "HOL-Library.AList"
begin

section \<open>Conventions\<close>

text \<open>
  The development embeds the scoring, caching, circuit-breaking and routing code of the
  customer-support agent. Python \<open>float\<close> scores are read as exact rationals (every
  literal of the source is a decimal fraction and the code only adds, divides by a
  constant, takes minima and compares). A \<open>datetime\<close> is the number of microseconds
  since the epoch, a \<open>timedelta\<close> a number of microseconds; every call of
  \<open>datetime.utcnow()\<close> within one operation reads the same instant \<open>now\<close>, which the
  caller passes in. A Python \<open>dict\<close> is an association list in insertion order with
  distinct keys.
\<close>

type_synonym datetime = int

type_synonym timedelta = int

definition seconds :: "int \<Rightarrow> timedelta" where
  "seconds s = s * 1000000"

definition minutes :: "int \<Rightarrow> timedelta" where
  "minutes m = seconds (m * 60)"

section \<open>Text\<close>

text \<open>
  A Python \<open>str\<close> is a list of characters, each standing for a code point below 256.
  \<open>is_space\<close> is \<open>str.isspace\<close> on that range (the characters \<open>strip\<close> and
  \<open>split\<close> treat as white space), \<open>lower_char\<close> is \<open>str.lower\<close>.
\<close>

definition is_space :: "char \<Rightarrow> bool" where
  "is_space c = (let n = (of_char c :: nat) in
     (9 \<le> n \<and> n \<le> 13) \<or> (28 \<le> n \<and> n \<le> 32) \<or> n = 133 \<or> n = 160)"

definition lower_char :: "char \<Rightarrow> char" where
  "lower_char c = (let n = (of_char c :: nat) in
     if (65 \<le> n \<and> n \<le> 90) \<or> (192 \<le> n \<and> n \<le> 222 \<and> n \<noteq> 215)
     then char_of (n + 32) else c)"

definition lower :: "string \<Rightarrow> string" where
  "lower s = map lower_char s"

definition strip :: "string \<Rightarrow> string" where
  "strip s = rev (dropWhile is_space (rev (dropWhile is_space s)))"

text \<open>\<open>not query or not query.strip()\<close>: the guard of every entry point.\<close>

definition blank :: "string \<Rightarrow> bool" where
  "blank query = (query = [] \<or> strip query = [])"

text \<open>\<open>str.split()\<close>: the maximal runs of characters that are not white space.\<close>

fun split_acc :: "string \<Rightarrow> string \<Rightarrow> string list" where
  "split_acc w [] = (if w = [] then [] else [w])"
| "split_acc w (c # cs) =
     (if is_space c then (if w = [] then split_acc [] cs else w # split_acc [] cs)
      else split_acc (w @ [c]) cs)"

definition split :: "string \<Rightarrow> string list" where
  "split s = split_acc [] s"

text \<open>\<open>sub in s\<close> on strings.\<close>

fun contains :: "string \<Rightarrow> string \<Rightarrow> bool" where
  "contains [] sub = (sub = [])"
| "contains (c # cs) sub = (take (length sub) (c # cs) = sub \<or> contains cs sub)"

text \<open>
  \<open>\w\<close> of the \<open>re\<close> module on that range: letters, digits and the underscore.
\<close>

definition is_word_char :: "char \<Rightarrow> bool" where
  "is_word_char c = (let n = (of_char c :: nat) in
     (48 \<le> n \<and> n \<le> 57) \<or> (65 \<le> n \<and> n \<le> 90) \<or> n = 95 \<or> (97 \<le> n \<and> n \<le> 122)
     \<or> n = 170 \<or> n = 178 \<or> n = 179 \<or> n = 181 \<or> n = 185 \<or> n = 186
     \<or> (188 \<le> n \<and> n \<le> 190) \<or> (192 \<le> n \<and> n \<le> 214) \<or> (216 \<le> n \<and> n \<le> 246)
     \<or> (248 \<le> n \<and> n \<le> 255))"

text \<open>
  \<open>re.findall(r'\b\w+\b', s)\<close>: the maximal runs of word characters, from left to
  right.
\<close>

fun word_runs :: "string \<Rightarrow> string \<Rightarrow> string list" where
  "word_runs w [] = (if w = [] then [] else [w])"
| "word_runs w (c # cs) =
     (if is_word_char c then word_runs (w @ [c]) cs
      else if w = [] then word_runs [] cs else w # word_runs [] cs)"

definition findall_words :: "string \<Rightarrow> string list" where
  "findall_words s = word_runs [] s"

text \<open>
  The regular expressions of the analyzer use literals, alternation, concatenation,
  \<open>.*\<close> and a leading \<open>^\<close> only. \<open>rests r s\<close> lists what is left of \<open>s\<close>
  after each way of matching \<open>r\<close> at its start; \<open>.\<close> matches every character but
  the newline. A pattern is a regular expression with a flag for the leading \<open>^\<close>.
  \<open>re.search\<close> with \<open>re.IGNORECASE\<close> looks for a match at any position (at the
  start only under \<open>^\<close>) of the text, letter case ignored; the patterns are all in
  lower case.
\<close>

datatype regex = Lit string | Alt "regex list" | Seq "regex list" | DotStar

definition grp :: "string list \<Rightarrow> regex" where
  "grp alternatives = Alt (map Lit alternatives)"

fun dot_star :: "string \<Rightarrow> string list" where
  "dot_star [] = [[]]"
| "dot_star (c # cs) = (c # cs) # (if c = CHR 0x0A then [] else dot_star cs)"

fun rests :: "regex \<Rightarrow> string \<Rightarrow> string list" where
  "rests (Lit w) s = (if take (length w) s = w then [drop (length w) s] else [])"
| "rests DotStar s = dot_star s"
| "rests (Alt rs) s = concat (map (\<lambda>r. rests r s) rs)"
| "rests (Seq []) s = [s]"
| "rests (Seq (r # rs)) s = concat (map (rests (Seq rs)) (rests r s))"

fun match_anywhere :: "regex \<Rightarrow> string \<Rightarrow> bool" where
  "match_anywhere r [] = (rests r [] \<noteq> [])"
| "match_anywhere r (c # cs) = (rests r (c # cs) \<noteq> [] \<or> match_anywhere r cs)"

type_synonym pattern = "bool \<times> regex"

definition re_search :: "pattern \<Rightarrow> string \<Rightarrow> bool" where
  "re_search p s =
     (case p of (anchored, r) \<Rightarrow>
        if anchored then rests r (lower s) \<noteq> [] else match_anywhere r (lower s))"

section \<open>Escalation decision (app/services/escalation\_manager.py)\<close>

record EscalationManager =
  complexity_threshold :: rat
  sentiment_threshold :: rat

text \<open>\<open>EscalationManager.__init__\<close>: the two thresholds.\<close>

definition escalation_manager :: EscalationManager where
  "escalation_manager = \<lparr>complexity_threshold = 8 / 10, sentiment_threshold = - (5 / 10)\<rparr>"

text \<open>\<open>EscalationManager.should_escalate\<close>: two independent appends, then the flag.\<close>

definition should_escalate :: "EscalationManager \<Rightarrow> rat \<Rightarrow> rat \<Rightarrow> bool \<times> string list" where
  "should_escalate self complexity_score sentiment_score =
     (let reasons = [];
          reasons = (if complexity_score > complexity_threshold self
                     then reasons @ [''complexity''] else reasons);
          reasons = (if sentiment_score < sentiment_threshold self
                     then reasons @ [''sentiment''] else reasons)
      in (length reasons > 0, reasons))"

section \<open>Circuit breaker and error ledger (app/services/error\_handler.py)\<close>

datatype py_error = KeyError

datatype ErrorSeverity = LOW | MEDIUM | HIGH | CRITICAL

text \<open>The breaker's \<open>'state'\<close> field holds one of three string constants.\<close>

datatype breaker_state = OPEN | HALF_OPEN | CLOSED

type_synonym details = "(string \<times> string) list"

record error_count =
  count :: nat
  first_occurrence :: datetime
  last_occurrence :: datetime
  ec_severity :: ErrorSeverity
  ec_details :: "(datetime \<times> details) list"

record breaker =
  state :: breaker_state
  opened_at :: datetime
  failure_count :: nat
  cb_severity :: ErrorSeverity

text \<open>
  \<open>SystemErrorHandler\<close>: the two dictionaries that the recording methods use, keyed
  by \<open>component:error_type\<close>. (\<open>fallback_history\<close> is written by the retry decorator
  only and is left out.)
\<close>

record SystemErrorHandler =
  error_counts :: "(string \<times> error_count) list"
  circuit_breakers :: "(string \<times> breaker) list"

definition new_handler :: SystemErrorHandler where
  "new_handler = \<lparr>error_counts = [], circuit_breakers = []\<rparr>"

fun error_thresholds :: "ErrorSeverity \<Rightarrow> nat" where
  "error_thresholds LOW = 10"
| "error_thresholds MEDIUM = 5"
| "error_thresholds HIGH = 3"
| "error_thresholds CRITICAL = 1"

definition breaker_key :: "string \<Rightarrow> string \<Rightarrow> string" where
  "breaker_key component error_type = component @ '':'' @ error_type"

text \<open>
  \<open>_trigger_circuit_breaker\<close>: a breaker entry is created, OPEN, only when the key has
  none; an existing entry is left as it is. Reading \<open>error_counts[key]\<close> raises
  \<open>KeyError\<close> when the ledger has no entry.
\<close>

definition trigger_circuit_breaker ::
  "SystemErrorHandler \<Rightarrow> datetime \<Rightarrow> string \<Rightarrow> string \<Rightarrow> ErrorSeverity \<Rightarrow> py_error + SystemErrorHandler" where
  "trigger_circuit_breaker self now component error_type severity =
     (let key = breaker_key component error_type in
      if map_of (circuit_breakers self) key = None then
        (case map_of (error_counts self) key of
           None \<Rightarrow> Inl KeyError
         | Some e \<Rightarrow>
             Inr (self\<lparr>circuit_breakers :=
                    AList.update key
                      \<lparr>state = OPEN, opened_at = now, failure_count = count e, cb_severity = severity\<rparr>
                      (circuit_breakers self)\<rparr>))
      else Inr self)"

text \<open>
  \<open>record_error\<close>: create the ledger entry if missing, count the error, append the
  details when given and non-empty, and call the trigger once the count has reached the
  threshold of the severity passed to this call.
\<close>

definition record_error ::
  "SystemErrorHandler \<Rightarrow> datetime \<Rightarrow> string \<Rightarrow> string \<Rightarrow> ErrorSeverity \<Rightarrow> details option
     \<Rightarrow> py_error + SystemErrorHandler" where
  "record_error self now error_type component severity dets =
     (let key = breaker_key component error_type;
          e0 = (case map_of (error_counts self) key of
                  None \<Rightarrow> \<lparr>count = 0, first_occurrence = now, last_occurrence = now,
                            ec_severity = severity, ec_details = []\<rparr>
                | Some e \<Rightarrow> e);
          e1 = e0\<lparr>count := count e0 + 1, last_occurrence := now\<rparr>;
          e2 = (case dets of
                  None \<Rightarrow> e1
                | Some d \<Rightarrow> if d = [] then e1 else e1\<lparr>ec_details := ec_details e1 @ [(now, d)]\<rparr>);
          self1 = self\<lparr>error_counts := AList.update key e2 (error_counts self)\<rparr>
      in if count e2 \<ge> error_thresholds severity
         then trigger_circuit_breaker self1 now component error_type severity
         else Inr self1)"

text \<open>
  \<open>is_circuit_open\<close>: an OPEN breaker older than five minutes becomes HALF\_OPEN and
  the answer is no; a younger OPEN breaker answers yes; every other case answers no.
\<close>

definition is_circuit_open ::
  "SystemErrorHandler \<Rightarrow> datetime \<Rightarrow> string \<Rightarrow> string \<Rightarrow> bool \<times> SystemErrorHandler" where
  "is_circuit_open self now component error_type =
     (let key = breaker_key component error_type in
      case map_of (circuit_breakers self) key of
        None \<Rightarrow> (False, self)
      | Some b \<Rightarrow>
          if state b = OPEN then
            (let time_since_open = now - opened_at b in
             if time_since_open > minutes 5
             then (False, self\<lparr>circuit_breakers :=
                            AList.update key (b\<lparr>state := HALF_OPEN\<rparr>) (circuit_breakers self)\<rparr>)
             else (True, self))
          else (False, self))"

text \<open>\<open>record_success\<close>: only a HALF\_OPEN breaker changes, to CLOSED.\<close>

definition record_success :: "SystemErrorHandler \<Rightarrow> string \<Rightarrow> string \<Rightarrow> SystemErrorHandler" where
  "record_success self component error_type =
     (let key = breaker_key component error_type in
      case map_of (circuit_breakers self) key of
        None \<Rightarrow> self
      | Some b \<Rightarrow>
          if state b = HALF_OPEN
          then self\<lparr>circuit_breakers :=
                 AList.update key (b\<lparr>state := CLOSED\<rparr>) (circuit_breakers self)\<rparr>
          else self)"

text \<open>A run of \<open>record_error\<close> calls, each with its own instant and arguments.\<close>

type_synonym error_call = "datetime \<times> string \<times> string \<times> ErrorSeverity \<times> details option"

fun record_errors :: "SystemErrorHandler \<Rightarrow> error_call list \<Rightarrow> py_error + SystemErrorHandler" where
  "record_errors self [] = Inr self"
| "record_errors self ((now, error_type, component, severity, dets) # calls) =
     (case record_error self now error_type component severity dets of
        Inl e \<Rightarrow> Inl e
      | Inr self' \<Rightarrow> record_errors self' calls)"

text \<open>The state of the breaker stored under a key, if any.\<close>

definition breaker_state_of :: "SystemErrorHandler \<Rightarrow> string \<Rightarrow> breaker_state option" where
  "breaker_state_of self key = map_option state (map_of (circuit_breakers self) key)"

definition error_count_of :: "SystemErrorHandler \<Rightarrow> string \<Rightarrow> nat option" where
  "error_count_of self key = map_option count (map_of (error_counts self) key)"

text \<open>
  Two ledger states used as concrete inputs: one critical error recorded at instant 0 has
  opened the breaker of \<open>svc:op\<close>; a query of the breaker more than five minutes later
  has moved it to HALF\_OPEN.
\<close>

definition opened_handler :: SystemErrorHandler where
  "opened_handler =
     \<lparr>error_counts = [(''svc:op'', \<lparr>count = 1, first_occurrence = 0, last_occurrence = 0,
                                    ec_severity = CRITICAL, ec_details = []\<rparr>)],
      circuit_breakers = [(''svc:op'', \<lparr>state = OPEN, opened_at = 0, failure_count = 1,
                                        cb_severity = CRITICAL\<rparr>)]\<rparr>"

definition half_open_handler :: SystemErrorHandler where
  "half_open_handler =
     opened_handler\<lparr>circuit_breakers :=
        [(''svc:op'', \<lparr>state = HALF_OPEN, opened_at = 0, failure_count = 1,
                        cb_severity = CRITICAL\<rparr>)]\<rparr>"

section \<open>Semantic cache (app/services/cache\_service.py)\<close>

text \<open>
  The cache calls three library functions that are not part of the repository: the
  TF-IDF vectorizer of scikit-learn (\<open>fit\<close>, \<open>transform\<close>), its
  \<open>cosine_similarity\<close>, and \<open>hashlib.md5\<close>. They are parameters of the model;
  \<open>None\<close> stands for a raised exception. \<open>'m\<close> is a fitted vectorizer, \<open>'v\<close> a
  vector.
\<close>

record ('m, 'v) library =
  fit :: "string list \<Rightarrow> 'm option"
  transform :: "'m \<Rightarrow> string \<Rightarrow> 'v option"
  cosine_similarity :: "'v \<Rightarrow> 'v \<Rightarrow> rat option"
  md5 :: "string \<Rightarrow> string"

record cache_entry =
  query :: string
  model :: string
  response :: string
  tokens_used :: int
  created_at :: datetime

text \<open>
  \<open>SemanticCache\<close>. \<open>vectorizer\<close> is \<open>None\<close> while \<open>self.fitted\<close> is false and
  holds the fitted vectorizer afterwards (\<open>fitted\<close> is set right after a successful
  \<open>fit\<close> and never reset).
\<close>

record ('m, 'v) SemanticCache =
  similarity_threshold :: rat
  max_cache_size :: int
  ttl_seconds :: int
  cache :: "(string \<times> cache_entry) list"
  query_vectors :: "(string \<times> 'v) list"
  vectorizer :: "'m option"

definition new_cache :: "rat \<Rightarrow> int \<Rightarrow> int \<Rightarrow> ('m, 'v) SemanticCache" where
  "new_cache threshold max_size ttl =
     \<lparr>similarity_threshold = threshold, max_cache_size = max_size, ttl_seconds = ttl,
      cache = [], query_vectors = [], vectorizer = None\<rparr>"

text \<open>The module-level \<open>semantic_cache = SemanticCache()\<close> with the default arguments.\<close>

definition semantic_cache :: "('m, 'v) SemanticCache" where
  "semantic_cache = new_cache (85 / 100) 1000 3600"

definition get_cache_key :: "('m, 'v) library \<Rightarrow> string \<Rightarrow> string \<Rightarrow> string" where
  "get_cache_key lib q m = md5 lib (q @ '':'' @ m)"

text \<open>
  The loop of \<open>_vectorize_query\<close> that re-vectorizes the cached queries after a first
  fit. A failed transform deletes the key, and the deletion makes the running iteration
  over the dictionary raise on its next step, so the loop ends there and the whole
  vectorization fails (first component false).
\<close>

fun revectorize ::
  "('m, 'v) library \<Rightarrow> 'm \<Rightarrow> string list \<Rightarrow> (string \<times> 'v) list \<Rightarrow> bool \<times> (string \<times> 'v) list" where
  "revectorize lib vz [] qv = (True, qv)"
| "revectorize lib vz (cached_query # rest) qv =
     (case transform lib vz cached_query of
        Some v \<Rightarrow> revectorize lib vz rest (AList.update cached_query v qv)
      | None \<Rightarrow> (False, AList.delete cached_query qv))"

text \<open>\<open>_vectorize_query\<close>: every exception is caught and turned into \<open>None\<close>.\<close>

definition vectorize_query ::
  "('m, 'v) library \<Rightarrow> ('m, 'v) SemanticCache \<Rightarrow> string \<Rightarrow> 'v option \<times> ('m, 'v) SemanticCache" where
  "vectorize_query lib self q =
     (if blank q then (None, self)
      else case vectorizer self of
        Some vz \<Rightarrow> (transform lib vz q, self)
      | None \<Rightarrow>
          if length (query_vectors self) > 0 then
            (case fit lib (map fst (query_vectors self) @ [q]) of
               None \<Rightarrow> (None, self)
             | Some vz \<Rightarrow>
                 (case revectorize lib vz (map fst (query_vectors self)) (query_vectors self) of
                    (True, qv) \<Rightarrow>
                      (transform lib vz q, self\<lparr>query_vectors := qv, vectorizer := Some vz\<rparr>)
                  | (False, qv) \<Rightarrow>
                      (None, self\<lparr>query_vectors := qv, vectorizer := Some vz\<rparr>)))
          else
            (case fit lib [q] of
               None \<Rightarrow> (None, self)
             | Some vz \<Rightarrow> (transform lib vz q, self\<lparr>vectorizer := Some vz\<rparr>)))"

text \<open>
  The loop of \<open>_find_similar_query\<close> over \<open>self.cache.items()\<close>, with its two
  running variables. An entry of another model, an entry whose query has no vector and a
  comparison that raises are skipped.
\<close>

fun find_best ::
  "('m, 'v) library \<Rightarrow> rat \<Rightarrow> string \<Rightarrow> 'v \<Rightarrow> (string \<times> 'v) list \<Rightarrow> (string \<times> cache_entry) list
     \<Rightarrow> rat \<Rightarrow> string option \<Rightarrow> string option" where
  "find_best lib threshold m query_vector qv [] best_similarity best_key = best_key"
| "find_best lib threshold m query_vector qv ((cached_key, cached_data) # rest)
       best_similarity best_key =
     (if model cached_data \<noteq> m
      then find_best lib threshold m query_vector qv rest best_similarity best_key
      else case map_of qv (query cached_data) of
        None \<Rightarrow> find_best lib threshold m query_vector qv rest best_similarity best_key
      | Some cached_vector \<Rightarrow>
          (case cosine_similarity lib query_vector cached_vector of
             None \<Rightarrow> find_best lib threshold m query_vector qv rest best_similarity best_key
           | Some similarity \<Rightarrow>
               if similarity > best_similarity \<and> similarity \<ge> threshold
               then find_best lib threshold m query_vector qv rest similarity (Some cached_key)
               else find_best lib threshold m query_vector qv rest best_similarity best_key))"

definition find_similar_query ::
  "('m, 'v) library \<Rightarrow> ('m, 'v) SemanticCache \<Rightarrow> string \<Rightarrow> string
     \<Rightarrow> string option \<times> ('m, 'v) SemanticCache" where
  "find_similar_query lib self q m =
     (if query_vectors self = [] then (None, self)
      else case vectorize_query lib self q of
        (None, self1) \<Rightarrow> (None, self1)
      | (Some query_vector, self1) \<Rightarrow>
          (find_best lib (similarity_threshold self1) m query_vector (query_vectors self1)
             (cache self1) 0 None, self1))"

text \<open>\<open>_is_expired\<close>: strictly older than the time to live.\<close>

definition is_expired :: "('m, 'v) SemanticCache \<Rightarrow> datetime \<Rightarrow> cache_entry \<Rightarrow> bool" where
  "is_expired self now cache_entry = (now - created_at cache_entry > seconds (ttl_seconds self))"

definition remove_entry :: "('m, 'v) SemanticCache \<Rightarrow> string \<Rightarrow> ('m, 'v) SemanticCache" where
  "remove_entry self key =
     (case map_of (cache self) key of
        None \<Rightarrow> self
      | Some e \<Rightarrow>
          self\<lparr>query_vectors := AList.delete (query e) (query_vectors self),
               cache := AList.delete key (cache self)\<rparr>)"

definition cleanup_expired :: "('m, 'v) SemanticCache \<Rightarrow> datetime \<Rightarrow> ('m, 'v) SemanticCache" where
  "cleanup_expired self now =
     (let expired_keys = map fst (filter (\<lambda>(key, entry). is_expired self now entry) (cache self))
      in foldl remove_entry self expired_keys)"

text \<open>Python's \<open>min(xs, key=f)\<close> on a non-empty sequence: the first minimal element.\<close>

fun min_by :: "('a \<Rightarrow> int) \<Rightarrow> 'a \<Rightarrow> 'a list \<Rightarrow> 'a" where
  "min_by f best [] = best"
| "min_by f best (x # xs) = (if f x < f best then min_by f x xs else min_by f best xs)"

definition evict_oldest :: "('m, 'v) SemanticCache \<Rightarrow> ('m, 'v) SemanticCache" where
  "evict_oldest self =
     (case cache self of
        [] \<Rightarrow> self
      | first # others \<Rightarrow>
          (let oldest_key = fst (min_by (\<lambda>(k, e). created_at e) first others)
           in remove_entry self oldest_key))"

text \<open>
  The dictionary \<open>get\<close> returns on a hit (\<open>response_time_ms\<close>, a wall-clock
  measurement, is left out).
\<close>

record cache_hit =
  hit_response :: string
  hit_cached :: bool
  hit_similarity :: rat

text \<open>
  \<open>SemanticCache.get\<close>. Every exception inside is caught and gives \<open>None\<close>; the
  only one the model can meet is the \<open>KeyError\<close> of \<open>self.cache[similar_key]\<close>.
\<close>

definition get ::
  "('m, 'v) library \<Rightarrow> ('m, 'v) SemanticCache \<Rightarrow> datetime \<Rightarrow> string \<Rightarrow> string
     \<Rightarrow> cache_hit option \<times> ('m, 'v) SemanticCache" where
  "get lib self now q m =
     (if blank q then (None, self)
      else
        let self1 = cleanup_expired self now;
            cache_key = get_cache_key lib q m;
            exact = (case map_of (cache self1) cache_key of
                       None \<Rightarrow> None
                     | Some e \<Rightarrow> if is_expired self1 now e then None else Some e)
        in case exact of
          Some e \<Rightarrow>
            (Some \<lparr>hit_response = response e, hit_cached = True, hit_similarity = 1\<rparr>, self1)
        | None \<Rightarrow>
            (case find_similar_query lib self1 q m of
               (None, self2) \<Rightarrow> (None, self2)
             | (Some similar_key, self2) \<Rightarrow>
                 if similar_key = [] then (None, self2)
                 else (case map_of (cache self2) similar_key of
                   None \<Rightarrow> (None, self2)
                 | Some e \<Rightarrow>
                     if is_expired self2 now e then (None, self2)
                     else
                       (let (query_vector, self3) = vectorize_query lib self2 q;
                            cached_vector = map_of (query_vectors self3) (query e)
                        in case query_vector of
                             None \<Rightarrow> (None, self3)
                           | Some a \<Rightarrow>
                               (case cached_vector of
                                  None \<Rightarrow> (None, self3)
                                | Some b \<Rightarrow>
                                    (case cosine_similarity lib a b of
                                       Some similarity \<Rightarrow>
                                         (Some \<lparr>hit_response = response e, hit_cached = True,
                                                hit_similarity = similarity\<rparr>, self3)
                                     | None \<Rightarrow>
                                         (Some \<lparr>hit_response = response e, hit_cached = True,
                                                hit_similarity = similarity_threshold self3\<rparr>,
                                          self3)))))))"

text \<open>\<open>SemanticCache.set\<close> (named \<open>set_entry\<close>: \<open>set\<close> is taken).\<close>

definition set_entry ::
  "('m, 'v) library \<Rightarrow> ('m, 'v) SemanticCache \<Rightarrow> datetime \<Rightarrow> string \<Rightarrow> string \<Rightarrow> string \<Rightarrow> int
     \<Rightarrow> ('m, 'v) SemanticCache" where
  "set_entry lib self now q m resp tokens =
     (if blank q \<or> resp = [] then self
      else
        let self1 = (if int (length (cache self)) \<ge> max_cache_size self
                     then evict_oldest self else self);
            cache_key = get_cache_key lib q m;
            (query_vector, self2) = vectorize_query lib self1 q;
            self3 = self2\<lparr>cache := AList.update cache_key
                             \<lparr>query = q, model = m, response = resp, tokens_used = tokens,
                              created_at = now\<rparr> (cache self2)\<rparr>
        in case query_vector of
             Some v \<Rightarrow> self3\<lparr>query_vectors := AList.update q v (query_vectors self3)\<rparr>
           | None \<Rightarrow> self3)"

text \<open>
  The similarity that the loop of \<open>_find_similar_query\<close> computes for one cached
  entry; \<open>None\<close> when the loop skips the entry.
\<close>

definition entry_similarity ::
  "('m, 'v) library \<Rightarrow> string \<Rightarrow> 'v \<Rightarrow> (string \<times> 'v) list \<Rightarrow> cache_entry \<Rightarrow> rat option" where
  "entry_similarity lib m query_vector qv cached_data =
     (if model cached_data \<noteq> m then None
      else case map_of qv (query cached_data) of
        None \<Rightarrow> None
      | Some cached_vector \<Rightarrow> cosine_similarity lib query_vector cached_vector)"

text \<open>
  A small stand-in for the three library functions, used to run the cache on concrete
  inputs. The vocabulary is the list of distinct words of the fitted texts (fitting fails
  on an empty vocabulary, as scikit-learn does), a vector counts the vocabulary words of
  a text, and the similarity is the square of the cosine, which is rational and equals
  the cosine whenever that is 0 or 1. The hash is the identity.
\<close>

definition example_fit :: "string list \<Rightarrow> string list option" where
  "example_fit texts =
     (let vocabulary = remdups (concat (map split texts))
      in if vocabulary = [] then None else Some vocabulary)"

definition example_transform :: "string list \<Rightarrow> string \<Rightarrow> nat list option" where
  "example_transform vocabulary text = Some (map (count_list (split text)) vocabulary)"

definition dot :: "nat list \<Rightarrow> nat list \<Rightarrow> nat" where
  "dot a b = sum_list (map (\<lambda>(x, y). x * y) (zip a b))"

definition example_cosine :: "nat list \<Rightarrow> nat list \<Rightarrow> rat option" where
  "example_cosine a b = Some (of_nat (dot a b * dot a b) / of_nat (dot a a * dot b b))"

definition example_library :: "(string list, nat list) library" where
  "example_library =
     \<lparr>fit = example_fit, transform = example_transform,
      cosine_similarity = example_cosine, md5 = (\<lambda>s. s)\<rparr>"

text \<open>
  A cache of capacity two (default threshold and time to live) after two answers were
  stored for the same model one second apart, under two queries made of the same words.
\<close>

definition two_entry_cache :: "(string list, nat list) SemanticCache" where
  "two_entry_cache =
     set_entry example_library
       (set_entry example_library (new_cache (85 / 100) 2 3600)
          0 ''reset password'' ''m'' ''first answer'' 10)
       (seconds 1) ''password reset'' ''m'' ''second answer'' 10"

text \<open>
  The same stand-in with a list of stop words, as \<open>TfidfVectorizer(stop_words='english')\<close>
  has one: stop words do not enter the vocabulary, so fitting fails on texts made of stop
  words only. \<open>stop_word_cache\<close> is a cache of capacity one after an answer was stored
  under such a query.
\<close>

definition example_stop_words :: "string list" where
  "example_stop_words = [''the'', ''and'', ''a'', ''of'', ''is'']"

definition stop_word_fit :: "string list \<Rightarrow> string list option" where
  "stop_word_fit texts =
     (let vocabulary = remdups (filter (\<lambda>w. w \<notin> set example_stop_words)
                                  (concat (map split texts)))
      in if vocabulary = [] then None else Some vocabulary)"

definition stop_word_library :: "(string list, nat list) library" where
  "stop_word_library = example_library\<lparr>fit := stop_word_fit\<rparr>"

definition stop_word_cache :: "(string list, nat list) SemanticCache" where
  "stop_word_cache =
     set_entry stop_word_library (new_cache (85 / 100) 1 3600)
       0 ''the'' ''m'' ''first answer'' 10"

section \<open>Fallback routing (app/routes/query.py)\<close>

text \<open>
  One HTTP post ends in a reply, in an exception of the HTTP client, or in the
  cancellation of the awaiting task. A reply carries the status code, the parsed body
  (the content of the first choice and the optional \<open>usage.total_tokens\<close>;
  \<open>None\<close> when reading them raises) and whether the header \<open>X-Cache-Status\<close> is
  \<open>HIT\<close>. \<open>Cancelled\<close> is \<open>await client.post(...)\<close> raising
  \<open>asyncio.CancelledError\<close>; a cancellation delivered during a back-off sleep
  raises in the same way and is not modelled apart.
\<close>

datatype http_outcome =
    Reply int "(string \<times> int option) option" bool
  | ConnectError
  | TimeoutException
  | OtherException
  | Cancelled

text \<open>
  What the two call functions raise: an \<open>HTTPException\<close> with its status code, the
  plain \<open>Exception\<close> raised after the retry loop, or the \<open>CancelledError\<close> of a
  cancelled post. The first two are subclasses of \<open>Exception\<close>; \<open>CancelledError\<close>
  derives from \<open>BaseException\<close> only, so no \<open>except Exception\<close> clause catches it.
\<close>

datatype exn = HTTPException int | PlainException | CancelledError

fun is_Exception :: "exn \<Rightarrow> bool" where
  "is_Exception (HTTPException status_code) = True"
| "is_Exception PlainException = True"
| "is_Exception CancelledError = False"

text \<open>
  The process state around a dispatch: the module-level \<open>system_error_handler\<close>, the
  number of posts made so far, the sleeps taken (in seconds) and the entries appended by
  \<open>performance_metrics.record_error\<close> (error type and model; the endpoint is always
  \<open>/api/query\<close>). The network is a function from the number of the post to its
  outcome.
\<close>

record process =
  handler :: SystemErrorHandler
  posts :: nat
  slept :: "nat list"
  error_rates :: "(string \<times> string) list"

type_synonym network = "nat \<Rightarrow> http_outcome"

type_synonym call_result = "exn + (string \<times> int option \<times> bool)"

definition post :: "network \<Rightarrow> process \<Rightarrow> http_outcome \<times> process" where
  "post net w = (net (posts w), w\<lparr>posts := posts w + 1\<rparr>)"

definition sleep :: "nat \<Rightarrow> process \<Rightarrow> process" where
  "sleep wait_time w = w\<lparr>slept := slept w @ [wait_time]\<rparr>"

definition metrics_record_error :: "string \<Rightarrow> string \<Rightarrow> process \<Rightarrow> process" where
  "metrics_record_error error_type m w = w\<lparr>error_rates := error_rates w @ [(error_type, m)]\<rparr>"

text \<open>
  \<open>_call_llm_via_kong\<close>, the body of \<open>for attempt in range(max_retries + 1)\<close>.
  An \<open>HTTPException\<close> raised inside the \<open>try\<close> is caught by the last
  \<open>except Exception\<close> clause like any other error, so every failure either sleeps
  \<open>2 ** attempt\<close> and goes round again or breaks out of the loop; after the loop the
  failure is recorded and a plain exception raised. A \<open>CancelledError\<close> matches none
  of the \<open>except\<close> clauses and leaves the function at once.
\<close>

function kong_loop ::
  "network \<Rightarrow> string \<Rightarrow> nat \<Rightarrow> nat \<Rightarrow> process \<Rightarrow> call_result \<times> process" where
  "kong_loop net m max_retries attempt w =
     (if attempt > max_retries
      then (Inl PlainException, metrics_record_error ''kong_gateway_failure'' m w)
      else
        let (outcome, w1) = post net w;
            failed = (Inl PlainException, metrics_record_error ''kong_gateway_failure'' m w1);
            retry = kong_loop net m max_retries (attempt + 1) (sleep (2 ^ attempt) w1)
        in case outcome of
          Reply status_code body cache_hit \<Rightarrow>
            if status_code = 200 then
              (case body of
                 Some (content, total_tokens) \<Rightarrow> (Inr (content, total_tokens, cache_hit), w1)
               | None \<Rightarrow> if attempt < max_retries then retry else failed)
            else if status_code = 429 then
              (if attempt < max_retries then retry
               else \<comment> \<open>\<open>raise HTTPException\<close>, caught by \<open>except Exception\<close>\<close>
                 (if attempt < max_retries then retry else failed))
            else if status_code \<ge> 500 then
              (if attempt < max_retries then retry
               else \<comment> \<open>\<open>raise HTTPException\<close>, caught by \<open>except Exception\<close>\<close>
                 (if attempt < max_retries then retry else failed))
            else \<comment> \<open>\<open>raise HTTPException\<close>, caught by \<open>except Exception\<close>\<close>
              (if attempt < max_retries then retry else failed)
        | ConnectError \<Rightarrow> if attempt < max_retries then retry else failed
        | TimeoutException \<Rightarrow> if attempt < max_retries then retry else failed
        | OtherException \<Rightarrow> if attempt < max_retries then retry else failed
        | Cancelled \<Rightarrow> (Inl CancelledError, w1))"
  by pat_completeness auto
termination
  by (relation "measure (\<lambda>(net, m, max_retries, attempt, w). Suc max_retries - attempt)") auto

definition call_llm_via_kong ::
  "network \<Rightarrow> string \<Rightarrow> string \<Rightarrow> nat \<Rightarrow> process \<Rightarrow> call_result \<times> process" where
  "call_llm_via_kong net q m max_retries w = kong_loop net m max_retries 0 w"

text \<open>
  \<open>_call_groq_direct\<close>. Here \<open>except HTTPException: raise\<close> lets the
  \<open>HTTPException\<close>s out at once: a 429 or a 5xx on the last attempt, a 401 and any
  other status. A 429 waits \<open>min(60, 2 ** attempt * 5)\<close>.
\<close>

function groq_loop ::
  "network \<Rightarrow> string \<Rightarrow> nat \<Rightarrow> nat \<Rightarrow> process \<Rightarrow> call_result \<times> process" where
  "groq_loop net m max_retries attempt w =
     (if attempt > max_retries
      then (Inl PlainException, metrics_record_error ''groq_api_failure'' m w)
      else
        let (outcome, w1) = post net w;
            failed = (Inl PlainException, metrics_record_error ''groq_api_failure'' m w1);
            retry = groq_loop net m max_retries (attempt + 1) (sleep (2 ^ attempt) w1)
        in case outcome of
          Reply status_code body cache_hit \<Rightarrow>
            if status_code = 200 then
              (case body of
                 Some (content, total_tokens) \<Rightarrow> (Inr (content, total_tokens, False), w1)
               | None \<Rightarrow> if attempt < max_retries then retry else failed)
            else if status_code = 429 then
              (if attempt < max_retries
               then groq_loop net m max_retries (attempt + 1)
                      (sleep (min 60 (2 ^ attempt * 5)) w1)
               else (Inl (HTTPException 429), w1))
            else if status_code = 401 then (Inl (HTTPException 401), w1)
            else if status_code \<ge> 500 then
              (if attempt < max_retries then retry
               else (Inl (HTTPException status_code), w1))
            else (Inl (HTTPException status_code), w1)
        | ConnectError \<Rightarrow> if attempt < max_retries then retry else failed
        | TimeoutException \<Rightarrow> if attempt < max_retries then retry else failed
        | OtherException \<Rightarrow> if attempt < max_retries then retry else failed
        | Cancelled \<Rightarrow> (Inl CancelledError, w1))"
  by pat_completeness auto
termination
  by (relation "measure (\<lambda>(net, m, max_retries, attempt, w). Suc max_retries - attempt)") auto

definition call_groq_direct ::
  "network \<Rightarrow> string \<Rightarrow> string \<Rightarrow> nat \<Rightarrow> process \<Rightarrow> call_result \<times> process" where
  "call_groq_direct net q m max_retries w = groq_loop net m max_retries 0 w"

text \<open>\<open>_generate_fallback_response\<close>: three canned answers chosen by substring tests.\<close>

definition greeting_response :: string where
  "greeting_response = ''Hello! I'' @ [CHR 0x27] @ ''m currently experiencing technical difficulties, but I''
     @ [CHR 0x27] @ ''m here to help. Could you please try your question again in a moment?''"

definition technical_response :: string where
  "technical_response = ''I apologize, but I'' @ [CHR 0x27] @ ''m experiencing technical issues right now. For immediate technical support, please contact our support team directly or try again in a few minutes.''"

definition general_response :: string where
  "general_response = ''I'' @ [CHR 0x27] @ ''m sorry, but I'' @ [CHR 0x27] @ ''m currently unable to process your request due to technical difficulties. Please try again shortly, or contact our support team for immediate assistance.''"

definition generate_fallback_response :: "string \<Rightarrow> string" where
  "generate_fallback_response q =
     (let query_lower = lower q in
      if list_ex (contains query_lower) [''hello'', ''hi'', ''hey'', ''good morning'', ''good afternoon'']
      then greeting_response
      else if list_ex (contains query_lower)
                [''technical'', ''api'', ''code'', ''error'', ''bug'', ''integration'']
      then technical_response
      else if length q > 100 then technical_response
      else general_response)"

text \<open>
  \<open>_process_llm_request_with_fallbacks\<close>: the chain, and the loop over it. A step
  that returns ends the dispatch; a step that raises an \<open>Exception\<close> is recorded and
  the loop goes on (\<open>except Exception as e\<close>); any other exception leaves the
  dispatch; after the last step the canned answer is returned.
\<close>

type_synonym dispatch_result = "string \<times> int option \<times> bool \<times> string"

definition fallback_chain :: "string \<Rightarrow> (string \<times> string) list" where
  "fallback_chain preferred_model =
     [(''kong'', preferred_model),
      (''direct'', preferred_model),
      (''direct'', ''llama-3.3-70b-versatile''),
      (''direct'', ''llama-3.1-8b-instant'')]"

definition call_step ::
  "network \<Rightarrow> string \<Rightarrow> string \<Rightarrow> string \<Rightarrow> process \<Rightarrow> call_result option \<times> process" where
  "call_step net q method m w =
     (if method = ''kong'' then (case call_llm_via_kong net q m 2 w of (r, w1) \<Rightarrow> (Some r, w1))
      else if method = ''direct'' then (case call_groq_direct net q m 3 w of (r, w1) \<Rightarrow> (Some r, w1))
      else (None, w))"

fun run_chain ::
  "network \<Rightarrow> string \<Rightarrow> (string \<times> string) list \<Rightarrow> process
     \<Rightarrow> (exn + dispatch_result) \<times> process" where
  "run_chain net q [] w =
     (Inr (generate_fallback_response q, Some 0, False, ''fallback''),
      metrics_record_error ''all_llm_methods_failed'' ''fallback'' w)"
| "run_chain net q ((method, m) # rest) w =
     (case call_step net q method m w of
        (Some (Inr (resp, tokens, cached)), w1) \<Rightarrow>
          (Inr (resp, tokens, cached, m),
           if method = ''direct'' then metrics_record_error ''kong_fallback_used'' m w1 else w1)
      | (Some (Inl e), w1) \<Rightarrow>
          if is_Exception e
          then run_chain net q rest (metrics_record_error (method @ ''_failure'') m w1)
          else (Inl e, w1)
      | (None, w1) \<Rightarrow> run_chain net q rest w1)"

definition process_llm_request_with_fallbacks ::
  "network \<Rightarrow> string \<Rightarrow> string \<Rightarrow> process \<Rightarrow> (exn + dispatch_result) \<times> process" where
  "process_llm_request_with_fallbacks net q preferred_model w =
     run_chain net q (fallback_chain preferred_model) w"

text \<open>
  Every step of a chain fails with an \<open>Exception\<close>, one after the other: the state
  after the last failure, or \<open>None\<close> as soon as a step returns or raises something
  else.
\<close>

fun fail_through ::
  "network \<Rightarrow> string \<Rightarrow> (string \<times> string) list \<Rightarrow> process \<Rightarrow> process option" where
  "fail_through net q [] w = Some w"
| "fail_through net q ((method, m) # rest) w =
     (case call_step net q method m w of
        (Some (Inr r), w1) \<Rightarrow> None
      | (Some (Inl e), w1) \<Rightarrow>
          if is_Exception e
          then fail_through net q rest (metrics_record_error (method @ ''_failure'') m w1)
          else None
      | (None, w1) \<Rightarrow> fail_through net q rest w1)"

definition idle_process :: process where
  "idle_process = \<lparr>handler = new_handler, posts = 0, slept = [], error_rates = []\<rparr>"

text \<open>
  Four networks and a process state used as concrete inputs: a network on which every
  post fails to connect, one that always answers 429, one that always answers, one on
  which the task is cancelled during every post; and a process whose ledger holds a
  breaker opened at instant 0 by a critical error for each step of the chain of
  \<open>llama-3.3-70b-versatile\<close>.
\<close>

definition cancelling_network :: network where
  "cancelling_network = (\<lambda>n. Cancelled)"

definition dead_network :: network where
  "dead_network = (\<lambda>n. ConnectError)"

definition throttling_network :: network where
  "throttling_network = (\<lambda>n. Reply 429 None False)"




section \<open>Complexity score (app/services/complexity\_analyzer.py)\<close>

datatype QueryType = SIMPLE_FAQ | TECHNICAL | MULTI_STEP | TROUBLESHOOTING | INTEGRATION

definition technical_terms :: "string list" where
  "technical_terms =
     [''api'', ''authentication'', ''authorization'', ''oauth'', ''jwt'', ''token'', ''endpoint'',
      ''microservices'', ''database'', ''sql'', ''nosql'', ''mongodb'', ''postgresql'', ''mysql'',
      ''docker'', ''kubernetes'', ''container'', ''deployment'', ''ci/cd'', ''pipeline'',
      ''webhook'', ''rest'', ''graphql'', ''json'', ''xml'', ''yaml'', ''configuration'',
      ''middleware'', ''proxy'', ''gateway'', ''load balancer'', ''cache'', ''redis'',
      ''encryption'', ''ssl'', ''tls'', ''certificate'', ''security'', ''vulnerability'',
      ''rate limiting'', ''throttling'', ''scaling'', ''performance'', ''optimization'',
      ''monitoring'', ''logging'', ''metrics'', ''analytics'', ''debugging'', ''error'',
      ''exception'', ''timeout'', ''latency'', ''throughput'', ''concurrent'', ''async'',
      ''synchronous'', ''queue'', ''message broker'', ''kafka'', ''rabbitmq'', ''pub/sub'',
      ''migration'', ''schema'', ''foreign key'', ''constraint'', ''index'', ''query'',
      ''transaction'', ''acid'', ''consistency'', ''availability'', ''partition tolerance'',
      ''distributed'', ''cluster'', ''node'', ''replica'', ''backup'', ''recovery'']"

definition simple_patterns :: "pattern list" where
  "simple_patterns =
     [(True, Seq [grp [''what'', ''where'', ''when'', ''who''], Lit '' '',
                  grp [''is'', ''are'', ''do'', ''does'', ''can'', ''will'']]),
      (True, Seq [grp [''can you'', ''could you'', ''please''], Lit '' '',
                  grp [''help'', ''tell'', ''show'', ''explain'']]),
      (False, grp [''business hours'', ''office location'', ''contact'', ''phone'', ''email'']),
      (False, grp [''reset password'', ''forgot password'', ''login'', ''sign in'']),
      (False, grp [''pricing'', ''cost'', ''price'', ''fee'', ''billing'']),
      (True, Seq [grp [''what'', ''where'', ''when'', ''who'', ''how''], DotStar,
                  grp [''hours'', ''location'', ''contact'', ''price'', ''cost'']])]"

definition integration_patterns :: "pattern list" where
  "integration_patterns =
     [(False, Seq [grp [''integrate'', ''integration'', ''integrating''], DotStar,
                   grp [''api'', ''system'', ''service'']]),
      (False, Seq [grp [''connect'', ''connecting''], DotStar,
                   grp [''api'', ''system'', ''service'']]),
      (False, Seq [grp [''setup'', ''configure''], DotStar, grp [''integration'', ''api'']])]"

definition troubleshooting_patterns :: "pattern list" where
  "troubleshooting_patterns =
     [(False, Seq [grp [''trouble'', ''problem'', ''issue'', ''error''], DotStar,
                   grp [''with'', ''in'']]),
      (False, grp [''troubleshoot'', ''troubleshooting'', ''debug'', ''debugging'']),
      (False, grp [''not working'', ''doesn'' @ [CHR 0x27] @ ''t work'', ''broken'', ''failed'']),
      (False, Seq [grp [''fix'', ''solve'', ''resolve''], DotStar,
                   grp [''problem'', ''issue'', ''error'']])]"

definition multi_step_patterns :: "pattern list" where
  "multi_step_patterns =
     [(False, Seq [grp [''multiple'', ''several'', ''various'', ''different''], DotStar,
                   grp [''step'', ''stage'', ''phase'', ''method'']]),
      (False, Alt [Seq [Lit ''first'', DotStar, Lit ''then''],
                   Seq [Lit ''step'', DotStar, Lit ''step''],
                   Seq [Lit ''stage'', DotStar, Lit ''stage'']]),
      (False, Alt [Seq [Lit ''configure'', DotStar, Lit ''and'', DotStar, Lit ''setup''],
                   Seq [Lit ''setup'', DotStar, Lit ''and'', DotStar, Lit ''configure'']])]"

definition technical_patterns :: "pattern list" where
  "technical_patterns =
     [(False, grp [''configure'', ''configuration'', ''setup'', ''install'']),
      (False, grp [''migrate'', ''migration'', ''upgrade'', ''update'']),
      (False, grp [''architecture'', ''design'', ''implement'', ''implementation'']),
      (False, grp [''custom'', ''customization'', ''customize'']),
      (False, grp [''performance'', ''optimization'', ''scale'', ''scaling''])]"

text \<open>\<open>_calculate_length_score\<close>.\<close>

definition calculate_length_score :: "string \<Rightarrow> rat" where
  "calculate_length_score q = (let word_count = length (split q) in min (of_nat word_count / 40) (5 / 10))"

text \<open>\<open>_count_technical_terms\<close> and \<open>_calculate_technical_score\<close>.\<close>

definition count_technical_terms :: "string \<Rightarrow> nat" where
  "count_technical_terms q =
     (let words = findall_words (lower q)
      in length (filter (\<lambda>word. word \<in> set technical_terms) words))"

definition calculate_technical_score :: "string \<Rightarrow> rat" where
  "calculate_technical_score q =
     (let technical_count = count_technical_terms q
      in min (of_nat technical_count / 8 * (4 / 10)) (4 / 10))"

text \<open>
  One loop of \<open>_analyze_question_type\<close>: \<open>for pattern in patterns: if re.search(...)\<close>.
\<close>

fun any_pattern_matches :: "pattern list \<Rightarrow> string \<Rightarrow> bool" where
  "any_pattern_matches [] q = False"
| "any_pattern_matches (p # ps) q = (if re_search p q then True else any_pattern_matches ps q)"

text \<open>\<open>_analyze_question_type\<close>: five loops, each returning at its first match, and the
  final test on the number of words and on the technical terms occurring in the text.\<close>

definition analyze_question_type :: "string \<Rightarrow> QueryType" where
  "analyze_question_type q =
     (if any_pattern_matches simple_patterns q then SIMPLE_FAQ
      else if any_pattern_matches integration_patterns q then INTEGRATION
      else if any_pattern_matches troubleshooting_patterns q then TROUBLESHOOTING
      else if any_pattern_matches multi_step_patterns q then MULTI_STEP
      else if any_pattern_matches technical_patterns q then TECHNICAL
      else if length (split q) > 30 then MULTI_STEP
      else if list_ex (contains q) technical_terms then TECHNICAL
      else SIMPLE_FAQ)"

text \<open>\<open>_analyze_question_type_score\<close>: the dictionary of weights, read with default 0.1.\<close>

definition complexity_weights :: "(QueryType \<times> rat) list" where
  "complexity_weights =
     [(SIMPLE_FAQ, 0), (TECHNICAL, 15 / 100), (MULTI_STEP, 25 / 100),
      (TROUBLESHOOTING, 2 / 10), (INTEGRATION, 3 / 10)]"

definition analyze_question_type_score :: "string \<Rightarrow> rat" where
  "analyze_question_type_score q =
     (let question_type = analyze_question_type q
      in case map_of complexity_weights question_type of Some weight \<Rightarrow> weight | None \<Rightarrow> 1 / 10)"

text \<open>
  \<open>calculate_complexity\<close>. Nothing in the body raises on a string, so the handler that
  returns 0.5 is never entered.
\<close>

definition calculate_complexity :: "string \<Rightarrow> rat" where
  "calculate_complexity q =
     (if blank q then 0
      else
        let q1 = (if length q > 10000 then take 10000 q else q);
            query_lower = strip (lower q1);
            length_score = calculate_length_score query_lower;
            technical_score = calculate_technical_score query_lower;
            question_complexity_score = analyze_question_type_score query_lower
        in min (length_score + technical_score + question_complexity_score) 1)"

text \<open>
  The score as the specification words it, on a text \<open>t\<close> taken without regard to
  letter case and surrounding white space: the three partial scores, the table of
  weights, and the question type given by the first group, in the stated order, that has
  a matching pattern, with the test on length and keywords when no group matches.
\<close>

definition spec_weight :: "QueryType \<Rightarrow> rat" where
  "spec_weight ty =
     (case ty of SIMPLE_FAQ \<Rightarrow> 0 | TECHNICAL \<Rightarrow> 15 / 100 | TROUBLESHOOTING \<Rightarrow> 2 / 10
      | MULTI_STEP \<Rightarrow> 25 / 100 | INTEGRATION \<Rightarrow> 3 / 10)"

definition spec_groups :: "(QueryType \<times> pattern list) list" where
  "spec_groups =
     [(SIMPLE_FAQ, simple_patterns), (INTEGRATION, integration_patterns),
      (TROUBLESHOOTING, troubleshooting_patterns), (MULTI_STEP, multi_step_patterns),
      (TECHNICAL, technical_patterns)]"

definition spec_question_type :: "string \<Rightarrow> QueryType" where
  "spec_question_type t =
     (case find (\<lambda>(ty, patterns). list_ex (\<lambda>p. re_search p t) patterns) spec_groups of
        Some (ty, patterns) \<Rightarrow> ty
      | None \<Rightarrow>
          if length (split t) > 30 then MULTI_STEP
          else if list_ex (contains t) technical_terms then TECHNICAL
          else SIMPLE_FAQ)"

definition spec_complexity :: "string \<Rightarrow> rat" where
  "spec_complexity t =
     (let u = strip (lower t);
          word_count = length (split u);
          technical_term_count = length (filter (\<lambda>w. w \<in> set technical_terms) (findall_words u));
          length_score = min (of_nat word_count / 40) (5 / 10);
          technical_term_score = min (of_nat technical_term_count / 8 * (4 / 10)) (4 / 10);
          question_type_score = spec_weight (spec_question_type u)
      in min (length_score + technical_term_score + question_type_score) 1)"

text \<open>A text of 10003 characters: ten thousand blanks and then the word \<open>api\<close>.\<close>

definition padded_text :: string where
  "padded_text = replicate 10000 CHR '' '' @ ''api''"

section \<open>Theorems\<close>

subsection \<open>Escalation decision\<close>

text \<open>
  Claim C9. For every pair of scores, \<open>should_escalate\<close> answers true exactly when the
  complexity is above 0.8 or the sentiment is below -0.5; the reasons are the conditions
  that fired, complexity before sentiment; and the three sample calls of the
  specification give the stated results.
\<close>

theorem should_escalate_decision:
  "fst (should_escalate escalation_manager c s) = (c > 8 / 10 \<or> s < - (5 / 10))
   \<and> snd (should_escalate escalation_manager c s) =
       (if c > 8 / 10 then [''complexity''] else []) @ (if s < - (5 / 10) then [''sentiment''] else [])
   \<and> should_escalate escalation_manager (9 / 10) 0 = (True, [''complexity''])
   \<and> should_escalate escalation_manager (3 / 10) (- (7 / 10)) = (True, [''sentiment''])
   \<and> should_escalate escalation_manager (3 / 10) (2 / 10) = (False, [])"
  by (simp add: should_escalate_def escalation_manager_def Let_def)

subsection \<open>Circuit breaker\<close>

lemma trigger_keeps_state:
  assumes "breaker_state_of h key = Some st"
      and "trigger_circuit_breaker h now c et sev = Inr h'"
  shows "breaker_state_of h' key = Some st"
  using assms
  by (auto simp: trigger_circuit_breaker_def breaker_state_of_def Let_def update_conv'
           split: if_splits option.splits)

lemma trigger_total:
  assumes "map_of (error_counts h) (breaker_key c et) \<noteq> None"
  shows "\<exists>h'. trigger_circuit_breaker h now c et sev = Inr h'"
  using assms
  by (auto simp: trigger_circuit_breaker_def Let_def split: option.splits)

text \<open>\<open>record_error\<close> never raises: the ledger entry it reads has just been written.\<close>

lemma record_error_total: "\<exists>h'. record_error h now et c sev d = Inr h'"
  unfolding record_error_def Let_def
  by (auto intro!: trigger_total simp: update_conv')

lemma record_error_keeps_state:
  assumes "breaker_state_of h key = Some st"
      and "record_error h now et c sev d = Inr h'"
  shows "breaker_state_of h' key = Some st"
proof -
  let ?h1 = "h\<lparr>error_counts := AList.update (breaker_key c et)
      (let e0 = (case map_of (error_counts h) (breaker_key c et) of
                  None \<Rightarrow> \<lparr>count = 0, first_occurrence = now, last_occurrence = now,
                            ec_severity = sev, ec_details = []\<rparr>
                | Some e \<Rightarrow> e);
          e1 = e0\<lparr>count := count e0 + 1, last_occurrence := now\<rparr>
       in (case d of
                  None \<Rightarrow> e1
                | Some d \<Rightarrow> if d = [] then e1 else e1\<lparr>ec_details := ec_details e1 @ [(now, d)]\<rparr>))
      (error_counts h)\<rparr>"
  have s1: "breaker_state_of ?h1 key = Some st"
    using assms(1) by (simp add: breaker_state_of_def)
  from assms(2) have "h' = ?h1 \<or> trigger_circuit_breaker ?h1 now c et sev = Inr h'"
    by (auto simp: record_error_def Let_def split: if_splits)
  then show ?thesis using s1 trigger_keeps_state by blast
qed

lemma record_errors_keep_state:
  assumes "breaker_state_of h key = Some st"
  shows "\<exists>h'. record_errors h calls = Inr h' \<and> breaker_state_of h' key = Some st"
  using assms
proof (induction calls arbitrary: h)
  case Nil
  then show ?case by simp
next
  case (Cons call calls)
  obtain now et c sev d where call: "call = (now, et, c, sev, d)"
    by (cases call) auto
  obtain h1 where h1: "record_error h now et c sev d = Inr h1"
    using record_error_total by blast
  have "breaker_state_of h1 key = Some st"
    using record_error_keeps_state[OF Cons.prems h1] .
  from Cons.IH[OF this] show ?case by (simp add: call h1)
qed

lemma record_success_counts: "error_counts (record_success h c e) = error_counts h"
  by (simp add: record_success_def Let_def split: option.splits)

lemma record_success_failure_count:
  "map_option failure_count (map_of (circuit_breakers (record_success h c e)) k)
     = map_option failure_count (map_of (circuit_breakers h) k)"
  by (auto simp: record_success_def Let_def update_conv' split: option.splits)

lemma record_success_transition:
  assumes "breaker_state_of (record_success h c e) k \<noteq> breaker_state_of h k"
  shows "breaker_state_of h k = Some HALF_OPEN
         \<and> breaker_state_of (record_success h c e) k = Some CLOSED"
  using assms
  by (auto simp: record_success_def breaker_state_of_def Let_def update_conv'
           split: option.splits if_splits)

lemma is_circuit_open_transition:
  assumes "breaker_state_of (snd (is_circuit_open h now c e)) k \<noteq> breaker_state_of h k"
  shows "breaker_state_of h k = Some OPEN
         \<and> breaker_state_of (snd (is_circuit_open h now c e)) k = Some HALF_OPEN"
  using assms
  by (auto simp: is_circuit_open_def breaker_state_of_def Let_def update_conv'
           split: option.splits if_splits)

text \<open>The two sample ledgers are states the code reaches.\<close>

lemma opened_handler_reached:
  "record_error new_handler 0 ''op'' ''svc'' CRITICAL None = Inr opened_handler"
  by (simp add: record_error_def trigger_circuit_breaker_def new_handler_def
        opened_handler_def breaker_key_def Let_def)

lemma half_open_handler_reached:
  "is_circuit_open opened_handler (minutes 5 + 1) ''svc'' ''op'' = (False, half_open_handler)"
  by (simp add: is_circuit_open_def opened_handler_def half_open_handler_def
        breaker_key_def minutes_def seconds_def Let_def)

text \<open>
  Claim C2. In the HALF\_OPEN state the first recorded success closes the breaker, and a
  recorded failure reopens it. The code does the first and not the second: on the ledger
  \<open>half_open_handler\<close> (one critical error, cooldown elapsed) \<open>record_success\<close> gives
  CLOSED, while a further critical error, although it reaches the threshold and calls
  the trigger, leaves the breaker HALF\_OPEN.
\<close>

theorem half_open_failure_does_not_reopen:
  "breaker_state_of half_open_handler ''svc:op'' = Some HALF_OPEN
   \<and> breaker_state_of (record_success half_open_handler ''svc'' ''op'') ''svc:op'' = Some CLOSED
   \<and> (\<exists>h'. record_error half_open_handler (minutes 6) ''op'' ''svc'' CRITICAL None = Inr h'
           \<and> error_count_of h' ''svc:op'' = Some 2
           \<and> breaker_state_of h' ''svc:op'' = Some HALF_OPEN)"
  by (simp add: record_error_def trigger_circuit_breaker_def record_success_def
        half_open_handler_def opened_handler_def breaker_state_of_def error_count_of_def
        breaker_key_def Let_def)

text \<open>
  Claim C10. Once a breaker entry exists for a key, \<open>record_error\<close> returns and leaves
  the entry's state as it was; \<open>record_success\<close> leaves every cumulative count (the
  ledger's and the breaker's) as it was; the only state changes are HALF\_OPEN to CLOSED
  in \<open>record_success\<close> and OPEN to HALF\_OPEN in \<open>is_circuit_open\<close>; hence a breaker
  that is no longer OPEN is not OPEN after any run of \<open>record_error\<close> calls.
\<close>

theorem record_error_never_reopens:
  assumes "breaker_state_of h key = Some st"
  shows "(\<exists>h'. record_error h now et c sev d = Inr h' \<and> breaker_state_of h' key = Some st)
       \<and> error_count_of (record_success h c2 e2) k = error_count_of h k
       \<and> map_option failure_count (map_of (circuit_breakers (record_success h c2 e2)) k)
           = map_option failure_count (map_of (circuit_breakers h) k)
       \<and> (breaker_state_of (record_success h c2 e2) k \<noteq> breaker_state_of h k \<longrightarrow>
            breaker_state_of h k = Some HALF_OPEN
            \<and> breaker_state_of (record_success h c2 e2) k = Some CLOSED)
       \<and> (breaker_state_of (snd (is_circuit_open h now c2 e2)) k \<noteq> breaker_state_of h k \<longrightarrow>
            breaker_state_of h k = Some OPEN
            \<and> breaker_state_of (snd (is_circuit_open h now c2 e2)) k = Some HALF_OPEN)
       \<and> (st \<noteq> OPEN \<longrightarrow>
            (\<exists>h'. record_errors h calls = Inr h' \<and> breaker_state_of h' key = Some st
                  \<and> breaker_state_of h' key \<noteq> Some OPEN))"
proof -
  obtain h1 where h1: "record_error h now et c sev d = Inr h1"
    using record_error_total by blast
  have a: "\<exists>h'. record_error h now et c sev d = Inr h' \<and> breaker_state_of h' key = Some st"
    using h1 record_error_keeps_state[OF assms h1] by blast
  have b: "error_count_of (record_success h c2 e2) k = error_count_of h k"
    by (simp add: error_count_of_def record_success_counts)
  have c: "st \<noteq> OPEN \<longrightarrow>
            (\<exists>h'. record_errors h calls = Inr h' \<and> breaker_state_of h' key = Some st
                  \<and> breaker_state_of h' key \<noteq> Some OPEN)"
    using record_errors_keep_state[OF assms, of calls] by auto
  show ?thesis
    using a b c record_success_failure_count record_success_transition
      is_circuit_open_transition by blast
qed

theorem record_error_never_reopens_witness:
  "breaker_state_of (record_success half_open_handler ''svc'' ''op'') ''svc:op'' = Some CLOSED
   \<and> (\<exists>h'. record_errors (record_success half_open_handler ''svc'' ''op'')
              [(minutes 7, ''op'', ''svc'', CRITICAL, None),
               (minutes 8, ''op'', ''svc'', CRITICAL, None)] = Inr h'
           \<and> breaker_state_of h' ''svc:op'' = Some CLOSED
           \<and> breaker_state_of h' ''svc:op'' \<noteq> Some OPEN)"
proof -
  have st: "breaker_state_of (record_success half_open_handler ''svc'' ''op'') ''svc:op''
              = Some CLOSED"
    by (simp add: record_success_def half_open_handler_def opened_handler_def
          breaker_state_of_def breaker_key_def Let_def)
  show ?thesis
    using st record_error_never_reopens [OF st,
        of _ _ _ _ _ _ _ _ "[(minutes 7, ''op'', ''svc'', CRITICAL, None),
               (minutes 8, ''op'', ''svc'', CRITICAL, None)]"]
    by simp
qed

subsection \<open>Semantic cache\<close>

lemma cache_remove_entry: "cache (remove_entry self k) = AList.delete k (cache self)"
  by (auto simp: remove_entry_def map_of_eq_None_iff split: option.splits)

lemma ttl_remove_entry: "ttl_seconds (remove_entry self k) = ttl_seconds self"
  by (simp add: remove_entry_def split: option.splits)

lemma cache_foldl_remove:
  "cache (foldl remove_entry self ks) = filter (\<lambda>p. fst p \<notin> set ks) (cache self)"
proof (induction ks arbitrary: self)
  case Nil
  then show ?case by simp
next
  case (Cons k ks)
  have "filter (\<lambda>p. fst p \<notin> set ks) (AList.delete k (cache self))
        = filter (\<lambda>p. fst p \<notin> set (k # ks)) (cache self)"
    by (auto simp: AList.delete_eq case_prod_unfold intro!: filter_cong)
  then show ?case by (simp add: Cons.IH cache_remove_entry)
qed

lemma ttl_foldl_remove: "ttl_seconds (foldl remove_entry self ks) = ttl_seconds self"
  by (induction ks arbitrary: self) (simp_all add: ttl_remove_entry)

lemma cache_cleanup:
  "cache (cleanup_expired self now)
     = filter (\<lambda>p. fst p \<notin> fst ` {p \<in> set (cache self). is_expired self now (snd p)}) (cache self)"
  by (auto simp: cleanup_expired_def cache_foldl_remove Let_def case_prod_unfold intro!: filter_cong)

lemma ttl_cleanup: "ttl_seconds (cleanup_expired self now) = ttl_seconds self"
  by (simp add: cleanup_expired_def ttl_foldl_remove)

lemma cleanup_unexpired:
  assumes "(k, e) \<in> set (cache (cleanup_expired self now))"
  shows "(k, e) \<in> set (cache self) \<and> \<not> is_expired self now e"
  using assms by (force simp: cache_cleanup)

lemma vectorize_query_cache:
  "cache (snd (vectorize_query lib self q)) = cache self
   \<and> ttl_seconds (snd (vectorize_query lib self q)) = ttl_seconds self"
  by (auto simp: vectorize_query_def split: option.splits prod.splits bool.splits)

lemma find_similar_query_cache:
  "cache (snd (find_similar_query lib self q m)) = cache self
   \<and> ttl_seconds (snd (find_similar_query lib self q m)) = ttl_seconds self"
  using vectorize_query_cache[of lib self q]
  by (auto simp: find_similar_query_def split: option.splits prod.splits)

lemma is_expired_cong:
  "ttl_seconds a = ttl_seconds b \<Longrightarrow> is_expired a now e = is_expired b now e"
  by (simp add: is_expired_def)

lemma get_hit_source:
  assumes "get lib self now q m = (Some hit, self')"
  shows "\<exists>k e. (k, e) \<in> set (cache self) \<and> (k, e) \<in> set (cache self')
               \<and> hit_response hit = response e \<and> hit_cached hit
               \<and> \<not> is_expired self now e"
proof -
  let ?s1 = "cleanup_expired self now"
  have nb: "\<not> blank q" using assms by (auto simp: get_def)
  show ?thesis
  proof (cases "map_of (cache ?s1) (get_cache_key lib q m)")
    case (Some e)
    note Some1 = this
    show ?thesis
    proof (cases "is_expired ?s1 now e")
      case False
      then have "hit_response hit = response e" "hit_cached hit" "self' = ?s1"
        using assms nb Some1 by (auto simp: get_def Let_def)
      moreover have "(get_cache_key lib q m, e) \<in> set (cache ?s1)"
        using Some1 by (rule map_of_SomeD)
      ultimately show ?thesis using cleanup_unexpired by blast
    next
      case True
      have "(get_cache_key lib q m, e) \<in> set (cache ?s1)"
        using Some1 by (rule map_of_SomeD)
      then have "\<not> is_expired self now e" using cleanup_unexpired by blast
      then show ?thesis using True is_expired_cong[OF ttl_cleanup] by blast
    qed
  next
    case None
    obtain sk s2 where fs: "find_similar_query lib ?s1 q m = (sk, s2)"
      by (cases "find_similar_query lib ?s1 q m") auto
    have c2: "cache s2 = cache ?s1" and t2: "ttl_seconds s2 = ttl_seconds self"
      using find_similar_query_cache[of lib ?s1 q m] fs by (simp_all add: ttl_cleanup)
    obtain qv s3 where vq: "vectorize_query lib s2 q = (qv, s3)"
      by (cases "vectorize_query lib s2 q") auto
    have c3: "cache s3 = cache ?s1"
      using vectorize_query_cache[of lib s2 q] vq c2 by simp
    from assms nb None fs vq obtain k e where
      k: "map_of (cache s2) k = Some e" "\<not> is_expired s2 now e"
         "hit_response hit = response e" "hit_cached hit" "self' = s3"
      by (auto simp: get_def Let_def split: option.splits if_splits)
    have in1: "(k, e) \<in> set (cache ?s1)" using k(1) c2 by (auto dest: map_of_SomeD)
    then have "(k, e) \<in> set (cache self) \<and> \<not> is_expired self now e"
      by (rule cleanup_unexpired)
    moreover have "(k, e) \<in> set (cache self')" using in1 c3 k(5) by simp
    ultimately show ?thesis using k(3,4) by blast
  qed
qed

lemma get_all_expired:
  assumes "\<forall>(k, e) \<in> set (cache self). is_expired self now e"
  shows "fst (get lib self now q m) = None"
proof (cases "fst (get lib self now q m)")
  case None
  then show ?thesis .
next
  case (Some hit)
  then have "get lib self now q m = (Some hit, snd (get lib self now q m))"
    by (metis prod.collapse)
  from get_hit_source[OF this] show ?thesis using assms by blast
qed

lemma cleanup_keeps_live:
  assumes d: "distinct (map fst (cache self))"
      and m: "map_of (cache self) k = Some e"
      and l: "\<not> is_expired self now e"
  shows "map_of (cache (cleanup_expired self now)) k = Some e"
proof -
  have "k \<notin> fst ` {p \<in> set (cache self). is_expired self now (snd p)}"
  proof
    assume "k \<in> fst ` {p \<in> set (cache self). is_expired self now (snd p)}"
    then obtain e' where "(k, e') \<in> set (cache self)" "is_expired self now e'" by auto
    then show False using d m l by simp
  qed
  then have "map_of (filter (case_prod (\<lambda>k' e'. k' \<notin> fst ` {p \<in> set (cache self). is_expired self now (snd p)}))
                 (cache self)) k = Some e"
    using m by (intro map_of_filter_in) auto
  then show ?thesis by (simp add: cache_cleanup case_prod_unfold)
qed

lemma ttl_evict_oldest: "ttl_seconds (evict_oldest self) = ttl_seconds self"
  by (simp add: evict_oldest_def Let_def ttl_remove_entry split: list.splits)

lemma set_entry_stores:
  assumes "\<not> blank q" "resp \<noteq> []"
  shows "map_of (cache (set_entry lib self now q m resp tokens)) (get_cache_key lib q m)
           = Some \<lparr>query = q, model = m, response = resp, tokens_used = tokens, created_at = now\<rparr>
         \<and> ttl_seconds (set_entry lib self now q m resp tokens) = ttl_seconds self"
  using assms vectorize_query_cache[of lib "evict_oldest self" q] vectorize_query_cache[of lib self q]
  by (auto simp: set_entry_def Let_def update_conv' ttl_evict_oldest split: prod.splits option.splits)

lemma evict_oldest_cache:
  "\<exists>k. cache (evict_oldest self) = AList.delete k (cache self)"
  unfolding evict_oldest_def Let_def
  by (cases "cache self") (auto simp: cache_remove_entry intro: exI[of _ undefined])

lemma distinct_evict_oldest:
  "distinct (map fst (cache self)) \<Longrightarrow> distinct (map fst (cache (evict_oldest self)))"
  using evict_oldest_cache[of self] by (auto simp: distinct_delete)

lemma distinct_set_entry:
  assumes "distinct (map fst (cache self))"
  shows "distinct (map fst (cache (set_entry lib self now q m resp tokens)))"
  using assms distinct_evict_oldest[OF assms]
    vectorize_query_cache[of lib "evict_oldest self" q] vectorize_query_cache[of lib self q]
  by (auto simp: set_entry_def Let_def distinct_update split: prod.splits option.splits)

lemma find_best_Cons:
  "find_best lib thr m v qv ((k, e) # rest) bs bk =
     (case entry_similarity lib m v qv e of
        None \<Rightarrow> find_best lib thr m v qv rest bs bk
      | Some s \<Rightarrow> if s > bs \<and> s \<ge> thr then find_best lib thr m v qv rest s (Some k)
                  else find_best lib thr m v qv rest bs bk)"
  by (simp add: entry_similarity_def split: option.splits)

lemma find_best_Nil: "find_best lib thr m v qv [] bs bk = bk"
  by simp

declare find_best.simps [simp del]

lemma find_best_char:
  "(find_best lib thr m v qv xs bs bk = bk
      \<and> (\<forall>(k, e) \<in> set xs. \<forall>s. entry_similarity lib m v qv e = Some s \<longrightarrow> \<not> (s > bs \<and> s \<ge> thr)))
   \<or> (\<exists>ys k e zs s. xs = ys @ (k, e) # zs
        \<and> find_best lib thr m v qv xs bs bk = Some k
        \<and> entry_similarity lib m v qv e = Some s \<and> s > bs \<and> s \<ge> thr
        \<and> (\<forall>(k', e') \<in> set ys. \<forall>s'. entry_similarity lib m v qv e' = Some s' \<longrightarrow> s' < s)
        \<and> (\<forall>(k', e') \<in> set zs. \<forall>s'. entry_similarity lib m v qv e' = Some s' \<longrightarrow> s' \<le> s))"
  (is "?A xs bs bk \<or> ?B xs bs bk")
proof (induction xs arbitrary: bs bk)
  case Nil
  then show ?case by (simp add: find_best_Nil)
next
  case (Cons x xs)
  obtain k e where x: "x = (k, e)" by (cases x) auto
  let ?sim = "entry_similarity lib m v qv"
  show ?case
  proof (cases "\<exists>s. ?sim e = Some s \<and> s > bs \<and> s \<ge> thr")
    case True
    then obtain s where s: "?sim e = Some s" "s > bs" "s \<ge> thr" by blast
    have step: "find_best lib thr m v qv (x # xs) bs bk = find_best lib thr m v qv xs s (Some k)"
      using s by (simp add: x find_best_Cons)
    from Cons.IH[of s "Some k"] show ?thesis
    proof
      assume A: "?A xs s (Some k)"
      have later: "\<forall>(k', e') \<in> set xs. \<forall>s'. ?sim e' = Some s' \<longrightarrow> s' \<le> s"
      proof (clarify)
        fix k' e' s' assume "(k', e') \<in> set xs" "?sim e' = Some s'"
        then have "\<not> (s' > s \<and> s' \<ge> thr)" using A by blast
        then show "s' \<le> s" using s(3) by linarith
      qed
      have "?B (x # xs) bs bk"
        apply (rule exI[of _ "[]"], rule exI[of _ k], rule exI[of _ e], rule exI[of _ xs],
               rule exI[of _ s])
        using A s step x later by simp
      then show ?thesis ..
    next
      assume "?B xs s (Some k)"
      then obtain ys k2 e2 zs s2 where B:
        "xs = ys @ (k2, e2) # zs" "find_best lib thr m v qv xs s (Some k) = Some k2"
        "?sim e2 = Some s2" "s2 > s" "s2 \<ge> thr"
        "\<forall>(k', e') \<in> set ys. \<forall>s'. ?sim e' = Some s' \<longrightarrow> s' < s2"
        "\<forall>(k', e') \<in> set zs. \<forall>s'. ?sim e' = Some s' \<longrightarrow> s' \<le> s2"
        by blast
      have "?B (x # xs) bs bk"
        apply (rule exI[of _ "x # ys"], rule exI[of _ k2], rule exI[of _ e2], rule exI[of _ zs],
               rule exI[of _ s2])
        using B s step x by auto
      then show ?thesis ..
    qed
  next
    case False
    have step: "find_best lib thr m v qv (x # xs) bs bk = find_best lib thr m v qv xs bs bk"
      using False by (auto simp: x find_best_Cons split: option.splits)
    from Cons.IH[of bs bk] show ?thesis
    proof
      assume A: "?A xs bs bk"
      have "?A (x # xs) bs bk" using A False step x by auto
      then show ?thesis ..
    next
      assume "?B xs bs bk"
      then obtain ys k2 e2 zs s2 where B:
        "xs = ys @ (k2, e2) # zs" "find_best lib thr m v qv xs bs bk = Some k2"
        "?sim e2 = Some s2" "s2 > bs" "s2 \<ge> thr"
        "\<forall>(k', e') \<in> set ys. \<forall>s'. ?sim e' = Some s' \<longrightarrow> s' < s2"
        "\<forall>(k', e') \<in> set zs. \<forall>s'. ?sim e' = Some s' \<longrightarrow> s' \<le> s2"
        by blast
      have lt: "\<forall>s'. ?sim e = Some s' \<longrightarrow> s' < s2"
        using False B(4,5) by (metis not_less order.strict_trans1 order.strict_trans2 le_less_linear)
      have "?B (x # xs) bs bk"
        apply (rule exI[of _ "x # ys"], rule exI[of _ k2], rule exI[of _ e2], rule exI[of _ zs],
               rule exI[of _ s2])
        using B lt step x by auto
      then show ?thesis ..
    qed
  qed
qed

lemma find_similar_query_Some:
  assumes "find_similar_query lib self q m = (Some k, self')"
  shows "\<exists>query_vector ys e zs s.
           vectorize_query lib self q = (Some query_vector, self')
         \<and> cache self' = cache self \<and> cache self = ys @ (k, e) # zs
         \<and> model e = m
         \<and> entry_similarity lib m query_vector (query_vectors self') e = Some s
         \<and> s \<ge> similarity_threshold self' \<and> s > 0
         \<and> (\<forall>(k', e') \<in> set ys. \<forall>s'.
               entry_similarity lib m query_vector (query_vectors self') e' = Some s' \<longrightarrow> s' < s)
         \<and> (\<forall>(k', e') \<in> set zs. \<forall>s'.
               entry_similarity lib m query_vector (query_vectors self') e' = Some s' \<longrightarrow> s' \<le> s)"
proof -
  from assms obtain v where
    vq: "vectorize_query lib self q = (Some v, self')" and
    fb: "find_best lib (similarity_threshold self') m v (query_vectors self') (cache self') 0 None
           = Some k"
    by (auto simp: find_similar_query_def split: if_splits option.splits prod.splits)
  have c: "cache self' = cache self"
    using vectorize_query_cache[of lib self q] vq by simp
  from find_best_char[of lib "similarity_threshold self'" m v "query_vectors self'" "cache self'" 0 None]
    fb
  obtain ys k2 e zs s where B:
    "cache self' = ys @ (k2, e) # zs"
    "find_best lib (similarity_threshold self') m v (query_vectors self') (cache self') 0 None
       = Some k2"
    "entry_similarity lib m v (query_vectors self') e = Some s" "s > 0"
    "s \<ge> similarity_threshold self'"
    "\<forall>(k', e') \<in> set ys. \<forall>s'.
        entry_similarity lib m v (query_vectors self') e' = Some s' \<longrightarrow> s' < s"
    "\<forall>(k', e') \<in> set zs. \<forall>s'.
        entry_similarity lib m v (query_vectors self') e' = Some s' \<longrightarrow> s' \<le> s"
    by auto
  have k2: "k2 = k" using B(2) fb by simp
  have me: "model e = m" using B(3) by (auto simp: entry_similarity_def split: if_splits)
  show ?thesis
    apply (rule exI[of _ v], rule exI[of _ ys], rule exI[of _ e], rule exI[of _ zs],
           rule exI[of _ s])
    using vq c B k2 me by simp
qed

lemma min_by_least:
  "min_by f best xs \<in> set (best # xs) \<and> (\<forall>x \<in> set (best # xs). f (min_by f best xs) \<le> f x)"
proof (induction xs arbitrary: best)
  case Nil
  then show ?case by simp
next
  case (Cons x xs)
  show ?case
  proof (cases "f x < f best")
    case True
    with Cons.IH[of x] show ?thesis by force
  next
    case False
    with Cons.IH[of best] show ?thesis by force
  qed
qed

lemma update_fresh: "k \<notin> fst ` set al \<Longrightarrow> AList.update k v al = al @ [(k, v)]"
  by (induction al) auto

lemma length_delete_distinct:
  "distinct (map fst al) \<Longrightarrow> (k, v) \<in> set al \<Longrightarrow> Suc (length (AList.delete k al)) = length al"
proof (induction al)
  case Nil
  then show ?case by simp
next
  case (Cons p al)
  then show ?case by (cases p) (auto simp: rev_image_eqI)
qed

lemma evict_oldest_char:
  assumes "cache self \<noteq> []"
  shows "\<exists>k_old e_old. (k_old, e_old) \<in> set (cache self)
           \<and> (\<forall>(k, e) \<in> set (cache self). created_at e_old \<le> created_at e)
           \<and> cache (evict_oldest self) = AList.delete k_old (cache self)"
proof -
  obtain first others where c: "cache self = first # others"
    using assms by (cases "cache self") auto
  let ?r = "min_by (\<lambda>(k, e). created_at e) first others"
  have "?r \<in> set (cache self)"
    and "\<forall>x \<in> set (cache self). (\<lambda>(k, e). created_at e) ?r \<le> (\<lambda>(k, e). created_at e) x"
    using min_by_least[of "\<lambda>(k, e). created_at e" first others] c by simp_all
  moreover have "cache (evict_oldest self) = AList.delete (fst ?r) (cache self)"
    by (simp add: evict_oldest_def c Let_def cache_remove_entry)
  ultimately show ?thesis
    by (intro exI[of _ "fst ?r"] exI[of _ "snd ?r"]) (auto simp: case_prod_unfold)
qed

lemma cache_set_entry:
  assumes "\<not> blank q" "resp \<noteq> []"
  shows "cache (set_entry lib self now q m resp tokens)
           = AList.update (get_cache_key lib q m)
               \<lparr>query = q, model = m, response = resp, tokens_used = tokens, created_at = now\<rparr>
               (cache (if int (length (cache self)) \<ge> max_cache_size self
                       then evict_oldest self else self))"
  using assms vectorize_query_cache[of lib "evict_oldest self" q] vectorize_query_cache[of lib self q]
  by (auto simp: set_entry_def Let_def split: prod.splits option.splits)

lemma evict_oldest_full:
  assumes "distinct (map fst (cache self))" and "cache self \<noteq> []"
  shows "\<exists>k_old e_old. (k_old, e_old) \<in> set (cache self)
           \<and> (\<forall>(k, e) \<in> set (cache self). created_at e_old \<le> created_at e)
           \<and> cache (evict_oldest self) = AList.delete k_old (cache self)
           \<and> query_vectors (evict_oldest self) = AList.delete (query e_old) (query_vectors self)
           \<and> vectorizer (evict_oldest self) = vectorizer self"
proof -
  obtain first others where c: "cache self = first # others"
    using assms(2) by (cases "cache self") auto
  let ?r = "min_by (\<lambda>(k, e). created_at e) first others"
  have mem: "(fst ?r, snd ?r) \<in> set (cache self)"
    and least: "\<forall>x \<in> set (cache self). (\<lambda>(k, e). created_at e) ?r \<le> (\<lambda>(k, e). created_at e) x"
    using min_by_least[of "\<lambda>(k, e). created_at e" first others] c by simp_all
  have look: "map_of (cache self) (fst ?r) = Some (snd ?r)"
    using assms(1) mem by simp
  have ev: "evict_oldest self = remove_entry self (fst ?r)"
    by (simp add: evict_oldest_def c Let_def)
  have "cache (evict_oldest self) = AList.delete (fst ?r) (cache self)"
    and "query_vectors (evict_oldest self) = AList.delete (query (snd ?r)) (query_vectors self)"
    and "vectorizer (evict_oldest self) = vectorizer self"
    by (simp_all add: ev remove_entry_def look)
  then show ?thesis
    using mem least
    by (intro exI[of _ "fst ?r"] exI[of _ "snd ?r"]) (auto simp: case_prod_unfold)
qed

lemma query_vectors_set_entry_fitted:
  assumes "\<not> blank q" "resp \<noteq> []" "int (length (cache self)) \<ge> max_cache_size self"
      and "vectorizer (evict_oldest self) = Some vz"
  shows "query_vectors (set_entry lib self now q m resp tokens) =
           (case transform lib vz q of
              Some v \<Rightarrow> AList.update q v (query_vectors (evict_oldest self))
            | None \<Rightarrow> query_vectors (evict_oldest self))"
  using assms
  by (simp add: set_entry_def vectorize_query_def Let_def split: option.splits)

lemma query_vectors_set_entry_unfitted:
  assumes "\<not> blank q" "resp \<noteq> []" "int (length (cache self)) \<ge> max_cache_size self"
      and "vectorizer (evict_oldest self) = None" "query_vectors (evict_oldest self) = []"
  shows "query_vectors (set_entry lib self now q m resp tokens) =
           (case fit lib [q] of
              None \<Rightarrow> []
            | Some vz \<Rightarrow> (case transform lib vz q of Some v \<Rightarrow> [(q, v)] | None \<Rightarrow> []))"
  using assms
  by (simp add: set_entry_def vectorize_query_def Let_def split: option.splits)

lemma set_delete_distinct:
  "distinct (map fst al) \<Longrightarrow> (k, v) \<in> set al \<Longrightarrow> set (AList.delete k al) = set al - {(k, v)}"
  by (induction al) (auto simp: rev_image_eqI)


lemma find_similar_query_None:
  assumes "find_similar_query lib self q m = (None, self')"
      and "vectorize_query lib self q = (Some v, s1)"
  shows "\<forall>(k, e) \<in> set (cache self). \<forall>s.
           entry_similarity lib m v (query_vectors s1) e = Some s \<longrightarrow>
           \<not> (s > 0 \<and> s \<ge> similarity_threshold self)"
proof (cases "query_vectors self = []")
  case True
  then have "query_vectors s1 = []"
    using assms(2) by (auto simp: vectorize_query_def split: if_splits option.splits)
  then show ?thesis by (simp add: entry_similarity_def)
next
  case False
  have thr: "similarity_threshold s1 = similarity_threshold self"
    using assms(2)
    by (auto simp: vectorize_query_def split: if_splits option.splits prod.splits bool.splits)
  have c: "cache s1 = cache self"
    using vectorize_query_cache[of lib self q] assms(2) by simp
  have fb: "find_best lib (similarity_threshold s1) m v (query_vectors s1) (cache s1) 0 None = None"
    using assms False by (auto simp: find_similar_query_def)
  from find_best_char[of lib "similarity_threshold s1" m v "query_vectors s1" "cache s1" 0 None] fb
  show ?thesis by (auto simp: thr c)
qed

text \<open>
  Claim C4. \<open>get\<close> never returns an entry older than the time to live: a hit carries
  the response of an entry of the cache whose age at the instant of the call is at most
  \<open>ttl_seconds\<close> (on the exact-key path and on the similarity path alike), and when
  every entry is older than that the call is a miss. In the example that follows the
  older of two equally similar entries has expired and the similarity path returns the
  younger one.
\<close>

theorem get_never_returns_expired:
  "(get lib self now q m = (Some hit, self') \<longrightarrow>
      (\<exists>k e. (k, e) \<in> set (cache self) \<and> (k, e) \<in> set (cache self')
             \<and> hit_response hit = response e
             \<and> \<not> is_expired self now e
             \<and> now - created_at e \<le> seconds (ttl_seconds self)))
   \<and> ((\<forall>(k, e) \<in> set (cache self). now - created_at e > seconds (ttl_seconds self)) \<longrightarrow>
        fst (get lib self now q m) = None)"
proof -
  have "fst (get lib self now q m) = None"
    if "\<forall>(k, e) \<in> set (cache self). now - created_at e > seconds (ttl_seconds self)"
    using that by (intro get_all_expired) (simp add: is_expired_def)
  then show ?thesis
    using get_hit_source[of lib self now q m hit self'] by (fastforce simp: is_expired_def)
qed

theorem get_never_returns_expired_witness:
  "fst (get example_library two_entry_cache (seconds 3602) ''password reset'' ''m'') = None
   \<and> (\<exists>hit self'.
         get example_library two_entry_cache (seconds 3601) ''reset password please'' ''m''
           = (Some hit, self')
       \<and> hit_response hit = ''second answer''
       \<and> (\<exists>k e. (k, e) \<in> set (cache two_entry_cache) \<and> (k, e) \<in> set (cache self')
             \<and> hit_response hit = response e
             \<and> \<not> is_expired two_entry_cache (seconds 3601) e
             \<and> seconds 3601 - created_at e \<le> seconds (ttl_seconds two_entry_cache)))"
proof -
  have all_old: "\<forall>(k, e) \<in> set (cache two_entry_cache).
                   seconds 3602 - created_at e > seconds (ttl_seconds two_entry_cache)"
    by code_simp
  let ?hit = "\<lparr>hit_response = ''second answer'', hit_cached = True, hit_similarity = 1\<rparr>"
  let ?self' = "snd (get example_library two_entry_cache (seconds 3601)
                       ''reset password please'' ''m'')"
  have h: "get example_library two_entry_cache (seconds 3601) ''reset password please'' ''m''
             = (Some ?hit, ?self')"
    by code_simp
  show ?thesis
    using all_old h
      get_never_returns_expired [of example_library two_entry_cache "seconds 3602"
        "''password reset''" "''m''"]
      get_never_returns_expired [of example_library two_entry_cache "seconds 3601"
        "''reset password please''" "''m''" ?hit ?self']
    by (intro conjI exI[of _ ?hit] exI[of _ ?self']) simp_all
qed

text \<open>
  Claim C5. After \<open>set(q, m, r, k)\<close> with a non-blank query and a non-empty response,
  a \<open>get(q, m)\<close> that follows within the time to live returns \<open>r\<close> with similarity
  1.0, whatever the library functions do. The cache dictionary has distinct keys, as every
  dictionary has.
\<close>

theorem set_then_get:
  assumes d: "distinct (map fst (cache self))"
      and q: "\<not> blank q" and r: "resp \<noteq> []"
      and t: "now' - now \<le> seconds (ttl_seconds self)"
  shows "fst (get lib (set_entry lib self now q m resp tokens) now' q m)
           = Some \<lparr>hit_response = resp, hit_cached = True, hit_similarity = 1\<rparr>"
proof -
  let ?c = "set_entry lib self now q m resp tokens"
  let ?e = "\<lparr>query = q, model = m, response = resp, tokens_used = tokens, created_at = now\<rparr>"
  have st: "map_of (cache ?c) (get_cache_key lib q m) = Some ?e"
    and tt: "ttl_seconds ?c = ttl_seconds self"
    by (simp_all add: set_entry_stores[OF q r])
  have live: "\<not> is_expired ?c now' ?e" using t by (simp add: is_expired_def tt)
  have "map_of (cache (cleanup_expired ?c now')) (get_cache_key lib q m) = Some ?e"
    using cleanup_keeps_live[OF distinct_set_entry[OF d] st live] .
  moreover have "\<not> is_expired (cleanup_expired ?c now') now' ?e"
    using live is_expired_cong[OF ttl_cleanup] by blast
  ultimately show ?thesis using q by (simp add: get_def Let_def)
qed

theorem set_then_get_witness:
  "distinct (map fst (cache two_entry_cache)) \<and> \<not> blank ''opening hours''
   \<and> seconds 3600 - seconds 2 \<le> seconds (ttl_seconds two_entry_cache)
   \<and> fst (get example_library
            (set_entry example_library two_entry_cache (seconds 2) ''opening hours'' ''m''
               ''nine to five'' 7)
            (seconds 3600) ''opening hours'' ''m'')
       = Some \<lparr>hit_response = ''nine to five'', hit_cached = True, hit_similarity = 1\<rparr>"
proof -
  have d: "distinct (map fst (cache two_entry_cache))" by code_simp
  have q: "\<not> blank ''opening hours''" by code_simp
  have r: "''nine to five'' \<noteq> []" by simp
  have t: "seconds 3600 - seconds 2 \<le> seconds (ttl_seconds two_entry_cache)" by code_simp
  show ?thesis
    using d q t set_then_get [OF d q r t, of example_library "''m''" 7] by simp
qed

text \<open>
  Claim C6, as the code has it. A key returned by the similarity lookup belongs to an
  entry of the requested model (an entry of another model has no similarity at all),
  whose similarity to the query is positive and at least the threshold, is strictly
  greater than that of every entry before it in the dictionary and at least that of every
  entry after it: among entries of equal highest similarity the first inserted wins. When
  the lookup finds nothing although the query has a vector, no entry reaches the
  threshold with a positive similarity.
\<close>

theorem find_similar_query_best_match:
  "(find_similar_query lib self q m = (Some k, self') \<longrightarrow>
      (\<exists>query_vector ys e zs s.
           vectorize_query lib self q = (Some query_vector, self')
         \<and> cache self' = cache self \<and> cache self = ys @ (k, e) # zs
         \<and> model e = m
         \<and> entry_similarity lib m query_vector (query_vectors self') e = Some s
         \<and> s \<ge> similarity_threshold self' \<and> s > 0
         \<and> (\<forall>(k', e') \<in> set ys. \<forall>s'.
               entry_similarity lib m query_vector (query_vectors self') e' = Some s' \<longrightarrow> s' < s)
         \<and> (\<forall>(k', e') \<in> set zs. \<forall>s'.
               entry_similarity lib m query_vector (query_vectors self') e' = Some s' \<longrightarrow> s' \<le> s)))
   \<and> (model e0 \<noteq> m \<longrightarrow> entry_similarity lib m v0 qv0 e0 = None)
   \<and> (find_similar_query lib self q m = (None, self') \<and> vectorize_query lib self q = (Some v, s1) \<longrightarrow>
        (\<forall>(k, e) \<in> set (cache self). \<forall>s.
           entry_similarity lib m v (query_vectors s1) e = Some s \<longrightarrow>
           \<not> (s > 0 \<and> s \<ge> similarity_threshold self)))"
  using find_similar_query_Some[of lib self q m k self']
        find_similar_query_None[of lib self q m self' v s1]
  by (simp add: entry_similarity_def)

theorem find_similar_query_best_match_witness:
  "\<exists>query_vector ys e zs s.
       vectorize_query example_library two_entry_cache ''reset password please''
         = (Some query_vector, two_entry_cache)
     \<and> cache two_entry_cache = ys @ (''reset password:m'', e) # zs
     \<and> model e = ''m''
     \<and> entry_similarity example_library ''m'' query_vector (query_vectors two_entry_cache) e = Some s
     \<and> s \<ge> similarity_threshold two_entry_cache \<and> s > 0"
proof -
  have h: "find_similar_query example_library two_entry_cache ''reset password please'' ''m''
             = (Some ''reset password:m'', two_entry_cache)"
    by code_simp
  show ?thesis
    using h find_similar_query_best_match [of example_library two_entry_cache
        "''reset password please''" "''m''" "''reset password:m''" two_entry_cache]
    by blast
qed

text \<open>
  Claim C6 as stated breaks ties in favour of the most recent entry. In
  \<open>two_entry_cache\<close> both entries are of model \<open>m\<close> and have similarity 1 to the
  query \<open>reset password please\<close>; the lookup returns the entry created first, and
  \<open>get\<close> answers with its response.
\<close>

theorem similarity_tie_returns_first_inserted:
  "map (\<lambda>(k, e). (k, model e, created_at e,
          entry_similarity example_library ''m'' [1, 1] (query_vectors two_entry_cache) e))
     (cache two_entry_cache)
     = [(''reset password:m'', ''m'', 0, Some 1), (''password reset:m'', ''m'', 1000000, Some 1)]
   \<and> fst (vectorize_query example_library two_entry_cache ''reset password please'') = Some [1, 1]
   \<and> fst (find_similar_query example_library two_entry_cache ''reset password please'' ''m'')
       = Some ''reset password:m''
   \<and> fst (get example_library two_entry_cache (seconds 2) ''reset password please'' ''m'')
       = Some \<lparr>hit_response = ''first answer'', hit_cached = True, hit_similarity = 1\<rparr>"
  by code_simp

lemma vectorize_query_fitted:
  "(query_vectors self = [] \<or> vectorizer self \<noteq> None \<longrightarrow>
      query_vectors (snd (vectorize_query lib self q)) = []
      \<or> vectorizer (snd (vectorize_query lib self q)) \<noteq> None)
   \<and> (fst (vectorize_query lib self q) \<noteq> None \<longrightarrow>
        vectorizer (snd (vectorize_query lib self q)) \<noteq> None)"
  by (auto simp: vectorize_query_def split: option.splits prod.splits bool.splits)

lemma remove_entry_fitted:
  "query_vectors self = [] \<or> vectorizer self \<noteq> None \<Longrightarrow>
   query_vectors (remove_entry self k) = [] \<or> vectorizer (remove_entry self k) \<noteq> None"
  by (auto simp: remove_entry_def split: option.splits)

lemma foldl_remove_fitted:
  "query_vectors self = [] \<or> vectorizer self \<noteq> None \<Longrightarrow>
   query_vectors (foldl remove_entry self ks) = []
   \<or> vectorizer (foldl remove_entry self ks) \<noteq> None"
proof (induction ks arbitrary: self)
  case Nil
  then show ?case by simp
next
  case (Cons k ks)
  from Cons.IH[OF remove_entry_fitted[OF Cons.prems, of k]] show ?case by simp
qed

lemma evict_oldest_fitted:
  "query_vectors self = [] \<or> vectorizer self \<noteq> None \<Longrightarrow>
   query_vectors (evict_oldest self) = [] \<or> vectorizer (evict_oldest self) \<noteq> None"
  using remove_entry_fitted[of self]
  by (simp add: evict_oldest_def Let_def split: list.splits)

text \<open>
  A cache built from \<open>new_cache\<close> by \<open>set\<close> and \<open>get\<close> holds vectors only once its
  vectorizer is fitted.
\<close>

lemma set_entry_fitted:
  assumes "query_vectors self = [] \<or> vectorizer self \<noteq> None"
  shows "query_vectors (set_entry lib self now q m resp tokens) = []
         \<or> vectorizer (set_entry lib self now q m resp tokens) \<noteq> None"
proof -
  let ?s1 = "if int (length (cache self)) \<ge> max_cache_size self then evict_oldest self else self"
  have s1: "query_vectors ?s1 = [] \<or> vectorizer ?s1 \<noteq> None"
    using assms evict_oldest_fitted[OF assms] by simp
  show ?thesis
    using assms s1 vectorize_query_fitted[of ?s1 lib q]
    by (auto simp: set_entry_def Let_def split: prod.splits option.splits if_splits)
qed

lemma get_fitted:
  assumes "query_vectors self = [] \<or> vectorizer self \<noteq> None"
  shows "query_vectors (snd (get lib self now q m)) = []
         \<or> vectorizer (snd (get lib self now q m)) \<noteq> None"
proof -
  let ?s1 = "cleanup_expired self now"
  have s1: "query_vectors ?s1 = [] \<or> vectorizer ?s1 \<noteq> None"
    using foldl_remove_fitted[OF assms] by (simp add: cleanup_expired_def Let_def)
  have s2: "query_vectors (snd (find_similar_query lib ?s1 q m)) = []
            \<or> vectorizer (snd (find_similar_query lib ?s1 q m)) \<noteq> None"
    using s1 vectorize_query_fitted[of ?s1 lib q]
    by (auto simp: find_similar_query_def split: prod.splits option.splits)
  let ?s2 = "snd (find_similar_query lib ?s1 q m)"
  have s3: "query_vectors (snd (vectorize_query lib ?s2 q)) = []
            \<or> vectorizer (snd (vectorize_query lib ?s2 q)) \<noteq> None"
    using s2 vectorize_query_fitted[of ?s2 lib q] by blast
  show ?thesis
    using assms s1 s2 s3
    by (auto simp: get_def Let_def split: prod.splits option.splits if_splits)
qed

lemma new_cache_fitted: "query_vectors (new_cache threshold max_size ttl) = []"
  by (simp add: new_cache_def)

text \<open>
  Claim C7, as the code has it. When the cache is at capacity, storing an entry under a
  new key evicts exactly one entry, one whose \<open>created_at\<close> is smallest, together with
  the vector of its query, and appends the new entry; the number of entries is unchanged.
  The vector of the new query is stored only when the library produces one: with a
  fitted vectorizer, when \<open>transform\<close> succeeds; with a vectorizer not yet fitted
  (and no vectors stored), when the first \<open>fit\<close> on the query and the
  \<open>transform\<close> after it succeed. Otherwise the entry is stored without a vector.
  By the lemmas above a cache built by \<open>set\<close> and \<open>get\<close> is always in one of
  these two states.
\<close>

theorem set_entry_at_capacity:
  assumes d: "distinct (map fst (cache self))"
      and ne: "cache self \<noteq> []"
      and cap: "int (length (cache self)) \<ge> max_cache_size self"
      and q: "\<not> blank q" and r: "resp \<noteq> []"
      and fresh: "get_cache_key lib q m \<notin> fst ` set (cache self)"
  shows "\<exists>k_old e_old.
           (k_old, e_old) \<in> set (cache self)
         \<and> (\<forall>(k, e) \<in> set (cache self). created_at e_old \<le> created_at e)
         \<and> cache (set_entry lib self now q m resp tokens)
             = AList.delete k_old (cache self)
               @ [(get_cache_key lib q m,
                   \<lparr>query = q, model = m, response = resp, tokens_used = tokens, created_at = now\<rparr>)]
         \<and> set (AList.delete k_old (cache self)) = set (cache self) - {(k_old, e_old)}
         \<and> length (cache (set_entry lib self now q m resp tokens)) = length (cache self)
         \<and> (\<forall>vz. vectorizer self = Some vz \<longrightarrow>
               query_vectors (set_entry lib self now q m resp tokens) =
                 (case transform lib vz q of
                    Some v \<Rightarrow> AList.update q v (AList.delete (query e_old) (query_vectors self))
                  | None \<Rightarrow> AList.delete (query e_old) (query_vectors self)))
         \<and> (vectorizer self = None \<and> query_vectors self = [] \<longrightarrow>
               query_vectors (set_entry lib self now q m resp tokens) =
                 (case fit lib [q] of
                    None \<Rightarrow> []
                  | Some vz \<Rightarrow> (case transform lib vz q of Some v \<Rightarrow> [(q, v)] | None \<Rightarrow> [])))"
proof -
  from evict_oldest_full[OF d ne] obtain k_old e_old where
    old: "(k_old, e_old) \<in> set (cache self)"
         "\<forall>(k, e) \<in> set (cache self). created_at e_old \<le> created_at e"
         "cache (evict_oldest self) = AList.delete k_old (cache self)"
         "query_vectors (evict_oldest self) = AList.delete (query e_old) (query_vectors self)"
         "vectorizer (evict_oldest self) = vectorizer self"
    by blast
  let ?new = "\<lparr>query = q, model = m, response = resp, tokens_used = tokens, created_at = now\<rparr>"
  let ?s = "set_entry lib self now q m resp tokens"
  have "get_cache_key lib q m \<notin> fst ` set (AList.delete k_old (cache self))"
    using fresh dom_delete_subset[of k_old "cache self"] by blast
  then have c: "cache ?s = AList.delete k_old (cache self) @ [(get_cache_key lib q m, ?new)]"
    using cap old(3) by (simp add: cache_set_entry[OF q r] update_fresh)
  have l: "length (cache ?s) = length (cache self)"
    using length_delete_distinct[OF d old(1)] by (simp add: c)
  have v1: "\<forall>vz. vectorizer self = Some vz \<longrightarrow>
               query_vectors ?s =
                 (case transform lib vz q of
                    Some v \<Rightarrow> AList.update q v (AList.delete (query e_old) (query_vectors self))
                  | None \<Rightarrow> AList.delete (query e_old) (query_vectors self))"
  proof (intro allI impI)
    fix vz assume "vectorizer self = Some vz"
    then have "vectorizer (evict_oldest self) = Some vz" using old(5) by simp
    from query_vectors_set_entry_fitted[OF q r cap this, of lib now m tokens]
    show "query_vectors ?s =
            (case transform lib vz q of
               Some v \<Rightarrow> AList.update q v (AList.delete (query e_old) (query_vectors self))
             | None \<Rightarrow> AList.delete (query e_old) (query_vectors self))"
      unfolding old(4) .
  qed
  have v2: "vectorizer self = None \<and> query_vectors self = [] \<longrightarrow>
               query_vectors ?s =
                 (case fit lib [q] of
                    None \<Rightarrow> []
                  | Some vz \<Rightarrow> (case transform lib vz q of Some v \<Rightarrow> [(q, v)] | None \<Rightarrow> []))"
  proof
    assume a: "vectorizer self = None \<and> query_vectors self = []"
    then have "vectorizer (evict_oldest self) = None" "query_vectors (evict_oldest self) = []"
      using old(4,5) by simp_all
    from query_vectors_set_entry_unfitted[OF q r cap this, of lib now m tokens]
    show "query_vectors ?s =
            (case fit lib [q] of
               None \<Rightarrow> []
             | Some vz \<Rightarrow> (case transform lib vz q of Some v \<Rightarrow> [(q, v)] | None \<Rightarrow> []))" .
  qed
  show ?thesis
    using old(1,2) c l v1 v2 set_delete_distinct[OF d old(1)] by blast
qed

theorem set_entry_at_capacity_witness:
  "int (length (cache two_entry_cache)) \<ge> max_cache_size two_entry_cache
   \<and> vectorizer two_entry_cache = Some [''reset'', ''password'']
   \<and> transform example_library [''reset'', ''password''] ''opening hours'' = Some [0, 0]
   \<and> (\<exists>k_old e_old.
           (k_old, e_old) \<in> set (cache two_entry_cache)
         \<and> (\<forall>(k, e) \<in> set (cache two_entry_cache). created_at e_old \<le> created_at e)
         \<and> cache (set_entry example_library two_entry_cache (seconds 2) ''opening hours'' ''m''
                    ''nine to five'' 7)
             = AList.delete k_old (cache two_entry_cache)
               @ [(''opening hours:m'',
                   \<lparr>query = ''opening hours'', model = ''m'', response = ''nine to five'',
                    tokens_used = 7, created_at = seconds 2\<rparr>)]
         \<and> length (cache (set_entry example_library two_entry_cache (seconds 2) ''opening hours''
                    ''m'' ''nine to five'' 7)) = length (cache two_entry_cache)
         \<and> query_vectors (set_entry example_library two_entry_cache (seconds 2) ''opening hours''
                    ''m'' ''nine to five'' 7)
             = AList.update ''opening hours'' [0, 0]
                 (AList.delete (query e_old) (query_vectors two_entry_cache)))
   \<and> query_vectors (set_entry example_library two_entry_cache (seconds 2) ''opening hours''
                    ''m'' ''nine to five'' 7)
       = [(''password reset'', [1, 1]), (''opening hours'', [0, 0])]"
proof -
  have d: "distinct (map fst (cache two_entry_cache))" by code_simp
  have ne: "cache two_entry_cache \<noteq> []" by code_simp
  have cap: "int (length (cache two_entry_cache)) \<ge> max_cache_size two_entry_cache" by code_simp
  have q: "\<not> blank ''opening hours''" by code_simp
  have r: "''nine to five'' \<noteq> []" by simp
  have fresh: "get_cache_key example_library ''opening hours'' ''m''
                 \<notin> fst ` set (cache two_entry_cache)"
    by code_simp
  have k: "get_cache_key example_library ''opening hours'' ''m'' = ''opening hours:m''"
    by code_simp
  have vz: "vectorizer two_entry_cache = Some [''reset'', ''password'']" by code_simp
  have tr: "transform example_library [''reset'', ''password''] ''opening hours'' = Some [0, 0]"
    by code_simp
  have qv: "query_vectors (set_entry example_library two_entry_cache (seconds 2) ''opening hours''
                    ''m'' ''nine to five'' 7)
       = [(''password reset'', [1, 1]), (''opening hours'', [0, 0])]"
    by code_simp
  from set_entry_at_capacity [OF d ne cap q r fresh, of "seconds 2" 7]
  obtain k_old e_old where
    o: "(k_old, e_old) \<in> set (cache two_entry_cache)"
       "\<forall>(k, e) \<in> set (cache two_entry_cache). created_at e_old \<le> created_at e"
       "cache (set_entry example_library two_entry_cache (seconds 2) ''opening hours'' ''m''
                    ''nine to five'' 7)
             = AList.delete k_old (cache two_entry_cache)
               @ [(''opening hours:m'',
                   \<lparr>query = ''opening hours'', model = ''m'', response = ''nine to five'',
                    tokens_used = 7, created_at = seconds 2\<rparr>)]"
       "length (cache (set_entry example_library two_entry_cache (seconds 2) ''opening hours''
                    ''m'' ''nine to five'' 7)) = length (cache two_entry_cache)"
       "\<forall>vz. vectorizer two_entry_cache = Some vz \<longrightarrow>
               query_vectors (set_entry example_library two_entry_cache (seconds 2)
                    ''opening hours'' ''m'' ''nine to five'' 7) =
                 (case transform example_library vz ''opening hours'' of
                    Some v \<Rightarrow> AList.update ''opening hours'' v
                               (AList.delete (query e_old) (query_vectors two_entry_cache))
                  | None \<Rightarrow> AList.delete (query e_old) (query_vectors two_entry_cache))"
    unfolding k by blast
  have "query_vectors (set_entry example_library two_entry_cache (seconds 2) ''opening hours''
                    ''m'' ''nine to five'' 7)
             = AList.update ''opening hours'' [0, 0]
                 (AList.delete (query e_old) (query_vectors two_entry_cache))"
    using o(5) vz by (simp add: tr)
  then show ?thesis using cap vz tr qv o(1-4) by blast
qed

text \<open>
  Claim C7 as stated has the vector of the new query stored with its entry. In
  \<open>stop_word_cache\<close>, of capacity one, the only entry was stored under the query
  \<open>the\<close>; storing an answer under \<open>and\<close> evicts it and appends the new entry, but
  fitting fails on a text of stop words only, and no vector is stored for \<open>and\<close>.
\<close>

theorem entry_stored_without_vector:
  "int (length (cache stop_word_cache)) = max_cache_size stop_word_cache
   \<and> map fst (cache stop_word_cache) = [''the:m'']
   \<and> cache (set_entry stop_word_library stop_word_cache (seconds 1) ''and'' ''m''
              ''second answer'' 10)
       = [(''and:m'', \<lparr>query = ''and'', model = ''m'', response = ''second answer'',
                       tokens_used = 10, created_at = seconds 1\<rparr>)]
   \<and> fit stop_word_library [''and''] = None
   \<and> query_vectors (set_entry stop_word_library stop_word_cache (seconds 1) ''and'' ''m''
              ''second answer'' 10) = []"
  by code_simp

subsection \<open>Fallback routing\<close>

declare kong_loop.simps [simp del] groq_loop.simps [simp del]

lemma run_chain_all_fail:
  "fail_through net q chain w = Some w' \<Longrightarrow>
   run_chain net q chain w =
     (Inr (generate_fallback_response q, Some 0, False, ''fallback''),
      metrics_record_error ''all_llm_methods_failed'' ''fallback'' w')"
proof (induction chain arbitrary: w)
  case Nil
  then show ?case by simp
next
  case (Cons step chain)
  obtain tr m where step: "step = (tr, m)" by (cases step) auto
  obtain r w1 where cs: "call_step net q tr m w = (r, w1)"
    by (cases "call_step net q tr m w") auto
  show ?case
  proof (cases r)
    case None
    then show ?thesis using Cons step cs by simp
  next
    case (Some res)
    then show ?thesis using Cons step cs by (cases res) (auto split: if_splits)
  qed
qed

lemma fallback_is_canned:
  "generate_fallback_response q \<in> {greeting_response, technical_response, general_response}"
  by (simp add: generate_fallback_response_def Let_def)

lemma run_chain_advance:
  "fst (call_step net q method m w) = Some (Inl e) \<Longrightarrow> is_Exception e \<Longrightarrow>
   run_chain net q ((method, m) # rest) w =
     run_chain net q rest
       (metrics_record_error (method @ ''_failure'') m (snd (call_step net q method m w)))"
  by (cases "call_step net q method m w") auto

lemma kong_loop_posts:
  "posts (snd (kong_loop net m mr a w)) \<le> posts w + (Suc mr - a)
   \<and> (a \<le> mr \<longrightarrow> posts w < posts (snd (kong_loop net m mr a w)))
   \<and> handler (snd (kong_loop net m mr a w)) = handler w"
proof (induction net m mr a w rule: kong_loop.induct)
  case (1 net m max_retries attempt w)
  show ?case
  proof (cases "attempt > max_retries")
    case True
    then show ?thesis
      by (simp add: kong_loop.simps[of net m max_retries attempt w] metrics_record_error_def)
  next
    case False
    let ?w1 = "w\<lparr>posts := posts w + 1\<rparr>"
    have p: "post net w = (net (posts w), ?w1)" by (simp add: post_def)
    have IH: "attempt < max_retries \<Longrightarrow>
        posts (snd (kong_loop net m max_retries (attempt + 1) (sleep (2 ^ attempt) ?w1)))
          \<le> posts (sleep (2 ^ attempt) ?w1) + (Suc max_retries - (attempt + 1))
        \<and> posts (sleep (2 ^ attempt) ?w1)
             < posts (snd (kong_loop net m max_retries (attempt + 1) (sleep (2 ^ attempt) ?w1)))
        \<and> handler (snd (kong_loop net m max_retries (attempt + 1) (sleep (2 ^ attempt) ?w1)))
             = handler (sleep (2 ^ attempt) ?w1)"
      using "1.IH"[OF False p[symmetric] refl] by simp
    show ?thesis
      using False IH
      by (auto simp: kong_loop.simps[of net m max_retries attempt w] p Let_def sleep_def
                 metrics_record_error_def
               split: http_outcome.splits option.splits)
  qed
qed

lemma groq_loop_posts:
  "posts (snd (groq_loop net m mr a w)) \<le> posts w + (Suc mr - a)
   \<and> (a \<le> mr \<longrightarrow> posts w < posts (snd (groq_loop net m mr a w)))
   \<and> handler (snd (groq_loop net m mr a w)) = handler w"
proof (induction "Suc mr - a" arbitrary: a w)
  case 0
  then show ?case
    by (simp add: groq_loop.simps[of net m mr a w] metrics_record_error_def)
next
  case (Suc n)
  then have a: "a \<le> mr" and n: "n = Suc mr - Suc a" by simp_all
  let ?w1 = "w\<lparr>posts := Suc (posts w)\<rparr>"
  have p: "post net w = (net (posts w), ?w1)" by (simp add: post_def)
  have IH: "posts (snd (groq_loop net m mr (Suc a) (sleep t ?w1))) + a \<le> posts w + Suc mr
        \<and> posts w < posts (snd (groq_loop net m mr (Suc a) (sleep t ?w1)))
        \<and> handler (snd (groq_loop net m mr (Suc a) (sleep t ?w1))) = handler w"
    if "a < mr" for t
  proof -
    have ps: "posts (sleep t ?w1) = Suc (posts w)" "handler (sleep t ?w1) = handler w"
      by (simp_all add: sleep_def)
    from Suc.hyps(1)[OF n, of "sleep t ?w1"] that
    have "posts (snd (groq_loop net m mr (Suc a) (sleep t ?w1))) \<le> Suc (posts w) + (Suc mr - Suc a)"
      and "Suc (posts w) < posts (snd (groq_loop net m mr (Suc a) (sleep t ?w1)))"
      and "handler (snd (groq_loop net m mr (Suc a) (sleep t ?w1))) = handler w"
      unfolding ps by auto
    then show ?thesis using that by arith
  qed
  show ?case
  proof (cases "a < mr")
    case True
    have b: "x + a \<le> posts w + Suc mr \<Longrightarrow> x \<le> posts w + (Suc mr - a)" for x
      using a by arith
    show ?thesis
      using IH[OF True] b
      by (auto simp: groq_loop.simps[of net m mr a w] p Let_def metrics_record_error_def
               split: http_outcome.splits option.splits)
  next
    case False
    then have am: "a = mr" using a by simp
    show ?thesis
      unfolding am
      by (auto simp: groq_loop.simps[of net m mr mr w] post_def Let_def metrics_record_error_def
               split: http_outcome.splits option.splits)
  qed
qed










lemma kong_loop_raises:
  "fst (kong_loop net m mr a w) = Inl e \<Longrightarrow>
   e = PlainException \<or> (e = CancelledError \<and> (\<exists>n. net n = Cancelled))"
proof (induction "Suc mr - a" arbitrary: a w)
  case 0
  then show ?case by (simp add: kong_loop.simps[of net m mr a w])
next
  case (Suc n)
  then have n: "n = Suc mr - Suc a" by simp
  show ?case
    using Suc.prems Suc.hyps(1)[OF n, of "sleep (2 ^ a) (w\<lparr>posts := Suc (posts w)\<rparr>)"]
    by (auto simp: kong_loop.simps[of net m mr a w] post_def Let_def
             split: http_outcome.splits option.splits if_splits)
qed

lemma groq_loop_raises:
  "fst (groq_loop net m mr a w) = Inl e \<Longrightarrow>
   is_Exception e \<or> (e = CancelledError \<and> (\<exists>n. net n = Cancelled))"
proof (induction "Suc mr - a" arbitrary: a w)
  case 0
  then show ?case by (auto simp: groq_loop.simps[of net m mr a w])
next
  case (Suc n)
  then have n: "n = Suc mr - Suc a" by simp
  show ?case
    using Suc.prems Suc.hyps(1)[OF n, of "sleep (2 ^ a) (w\<lparr>posts := Suc (posts w)\<rparr>)"]
      Suc.hyps(1)[OF n, of "sleep (min 60 (2 ^ a * 5)) (w\<lparr>posts := Suc (posts w)\<rparr>)"]
    by (auto simp: groq_loop.simps[of net m mr a w] post_def Let_def
             split: http_outcome.splits option.splits if_splits)
qed

lemma call_step_raises:
  assumes "fst (call_step net q tr m w) = Some (Inl e)"
  shows "is_Exception e \<or> (e = CancelledError \<and> (\<exists>n. net n = Cancelled))"
proof -
  have "fst (kong_loop net m 2 0 w) = Inl e \<or> fst (groq_loop net m 3 0 w) = Inl e"
    using assms
    by (auto simp: call_step_def call_llm_via_kong_def call_groq_direct_def
             split: if_splits prod.splits)
  then show ?thesis
    using kong_loop_raises[of net m 2 0 w e] groq_loop_raises[of net m 3 0 w e] by auto
qed

text \<open>
  What leaves the dispatch as an exception is a \<open>CancelledError\<close>, and only when a
  post was cancelled.
\<close>

lemma run_chain_raises:
  "fst (run_chain net q chain w) = Inl e \<Longrightarrow> e = CancelledError \<and> (\<exists>n. net n = Cancelled)"
proof (induction chain arbitrary: w)
  case Nil
  then show ?case by simp
next
  case (Cons step chain)
  obtain tr m where step: "step = (tr, m)" by (cases step) auto
  obtain r w1 where cs: "call_step net q tr m w = (r, w1)"
    by (cases "call_step net q tr m w") auto
  show ?case
  proof (cases r)
    case None
    then show ?thesis using Cons step cs by simp
  next
    case (Some res)
    show ?thesis
    proof (cases res)
      case (Inl e')
      have r: "is_Exception e' \<or> (e' = CancelledError \<and> (\<exists>n. net n = Cancelled))"
        using call_step_raises[of net q tr m w e'] cs Some Inl by simp
      show ?thesis
      proof (cases "is_Exception e'")
        case True
        then show ?thesis using Cons step cs Some Inl by simp
      next
        case False
        then show ?thesis using Cons.prems r step cs Some Inl by auto
      qed
    next
      case (Inr ok)
      then show ?thesis using Cons.prems step cs Some by (cases ok) auto
    qed
  qed
qed

lemma dead_network_reply: "dead_network n = ConnectError"
  by (simp add: dead_network_def)

lemma throttling_network_reply: "throttling_network n = Reply 429 None False"
  by (simp add: throttling_network_def)

lemma cancelling_network_reply: "cancelling_network n = Cancelled"
  by (simp add: cancelling_network_def)

lemma kong_loop_dead: "\<exists>e. fst (kong_loop dead_network m mr a w) = Inl e \<and> is_Exception e"
proof (induction "Suc mr - a" arbitrary: a w)
  case 0
  then show ?case by (simp add: kong_loop.simps[of dead_network m mr a w])
next
  case (Suc n)
  then have n: "n = Suc mr - Suc a" by simp
  show ?case
    using Suc.hyps(1)[OF n, of "sleep (2 ^ a) (w\<lparr>posts := Suc (posts w)\<rparr>)"]
    by (simp add: kong_loop.simps[of dead_network m mr a w] post_def dead_network_reply Let_def)
qed

lemma groq_loop_dead: "\<exists>e. fst (groq_loop dead_network m mr a w) = Inl e \<and> is_Exception e"
proof (induction "Suc mr - a" arbitrary: a w)
  case 0
  then show ?case by (simp add: groq_loop.simps[of dead_network m mr a w])
next
  case (Suc n)
  then have n: "n = Suc mr - Suc a" by simp
  show ?case
    using Suc.hyps(1)[OF n, of "sleep (2 ^ a) (w\<lparr>posts := Suc (posts w)\<rparr>)"]
    by (simp add: groq_loop.simps[of dead_network m mr a w] post_def dead_network_reply Let_def)
qed

lemma kong_loop_throttled:
  "\<exists>e. fst (kong_loop throttling_network m mr a w) = Inl e \<and> is_Exception e"
proof (induction "Suc mr - a" arbitrary: a w)
  case 0
  then show ?case by (simp add: kong_loop.simps[of throttling_network m mr a w])
next
  case (Suc n)
  then have n: "n = Suc mr - Suc a" by simp
  show ?case
    using Suc.hyps(1)[OF n, of "sleep (2 ^ a) (w\<lparr>posts := Suc (posts w)\<rparr>)"]
    by (simp add: kong_loop.simps[of throttling_network m mr a w] post_def throttling_network_reply
          Let_def)
qed

lemma groq_loop_throttled:
  "\<exists>e. fst (groq_loop throttling_network m mr a w) = Inl e \<and> is_Exception e"
proof (induction "Suc mr - a" arbitrary: a w)
  case 0
  then show ?case by (simp add: groq_loop.simps[of throttling_network m mr a w])
next
  case (Suc n)
  then have n: "n = Suc mr - Suc a" by simp
  show ?case
    using Suc.hyps(1)[OF n, of "sleep (min 60 (2 ^ a * 5)) (w\<lparr>posts := Suc (posts w)\<rparr>)"]
    by (simp add: groq_loop.simps[of throttling_network m mr a w] post_def throttling_network_reply
          Let_def)
qed

lemma fail_through_when_calls_fail:
  assumes "\<And>m mr a w. \<exists>e. fst (kong_loop net m mr a w) = Inl e \<and> is_Exception e"
      and "\<And>m mr a w. \<exists>e. fst (groq_loop net m mr a w) = Inl e \<and> is_Exception e"
  shows "\<exists>w'. fail_through net q chain w = Some w'"
proof (induction chain arbitrary: w)
  case Nil
  then show ?case by simp
next
  case (Cons step chain)
  obtain tr m where step: "step = (tr, m)" by (cases step) auto
  obtain e1 where k: "fst (kong_loop net m 2 0 w) = Inl e1" "is_Exception e1"
    using assms(1) by blast
  obtain e2 where g: "fst (groq_loop net m 3 0 w) = Inl e2" "is_Exception e2"
    using assms(2) by blast
  have "(\<exists>e w1. call_step net q tr m w = (Some (Inl e), w1) \<and> is_Exception e)
        \<or> (\<exists>w1. call_step net q tr m w = (None, w1))"
    using k g
    by (auto simp: call_step_def call_llm_via_kong_def call_groq_direct_def split: prod.splits)
  then show ?case using Cons.IH by (auto simp: step)
qed

text \<open>\<open>sub in s\<close>: the text has the form \<open>pre + sub + suf\<close>.\<close>

lemma contains_iff: "contains s sub \<longleftrightarrow> (\<exists>pre suf. s = pre @ sub @ suf)"
proof (induction s)
  case Nil
  then show ?case by auto
next
  case (Cons c cs)
  have "take (length sub) (c # cs) = sub \<longleftrightarrow> (\<exists>suf. c # cs = sub @ suf)"
    by (metis append_eq_conv_conj append_take_drop_id)
  moreover have "(\<exists>pre suf. c # cs = pre @ sub @ suf)
                   \<longleftrightarrow> (\<exists>suf. c # cs = sub @ suf) \<or> (\<exists>pre suf. cs = pre @ sub @ suf)"
  proof
    assume "\<exists>pre suf. c # cs = pre @ sub @ suf"
    then obtain pre suf where ps: "c # cs = pre @ sub @ suf" by blast
    show "(\<exists>suf. c # cs = sub @ suf) \<or> (\<exists>pre suf. cs = pre @ sub @ suf)"
    proof (cases pre)
      case Nil
      then show ?thesis using ps by auto
    next
      case (Cons p pre')
      then have "cs = pre' @ sub @ suf" using ps by simp
      then show ?thesis by blast
    qed
  next
    assume "(\<exists>suf. c # cs = sub @ suf) \<or> (\<exists>pre suf. cs = pre @ sub @ suf)"
    then show "\<exists>pre suf. c # cs = pre @ sub @ suf"
    proof
      assume "\<exists>suf. c # cs = sub @ suf"
      then show ?thesis by (metis append_Nil)
    next
      assume "\<exists>pre suf. cs = pre @ sub @ suf"
      then obtain pre suf where "cs = pre @ sub @ suf" by blast
      then have "c # cs = (c # pre) @ sub @ suf" by simp
      then show ?thesis by blast
    qed
  qed
  ultimately show ?case using Cons.IH by simp
qed

lemma has_any_word:
  "list_ex (contains s) ws = (\<exists>word \<in> set ws. \<exists>pre suf. s = pre @ word @ suf)"
  by (simp add: list_ex_iff contains_iff)

lemma if_merge:
  "(if a then x else if b then y else if c then y else z) = (if a then x else if b \<or> c then y else z)"
  by simp

text \<open>The three buckets of \<open>_generate_fallback_response\<close>, written out.\<close>

lemma fallback_buckets:
  "generate_fallback_response q =
     (if \<exists>word \<in> set [''hello'', ''hi'', ''hey'', ''good morning'', ''good afternoon''].
           \<exists>pre suf. lower q = pre @ word @ suf
      then greeting_response
      else if (\<exists>word \<in> set [''technical'', ''api'', ''code'', ''error'', ''bug'', ''integration''].
                 \<exists>pre suf. lower q = pre @ word @ suf)
              \<or> length q > 100
      then technical_response
      else general_response)"
  unfolding generate_fallback_response_def Let_def has_any_word if_merge by (rule refl)

lemma canned_responses_differ:
  "greeting_response \<noteq> technical_response \<and> greeting_response \<noteq> general_response
   \<and> technical_response \<noteq> general_response"
  by (simp add: greeting_response_def technical_response_def general_response_def)



text \<open>
  Claim C1, as the code has it. When every step of the chain fails with an
  \<open>Exception\<close>, whether by using up its retries or by raising, the dispatch returns the
  canned answer with 0 tokens, \<open>cached\<close> false and model \<open>fallback\<close>. The answer is
  chosen by substring tests on the lower-cased query: the greeting text when it contains
  one of the five greeting words; otherwise the technical text when it contains one of
  the six technical words or the query is longer than 100 characters; otherwise the
  general text; the three texts differ. The only exception that can leave the dispatch
  is a \<open>CancelledError\<close>, and only when a post was cancelled; on a network without
  cancellation the dispatch always returns. A step that fails with an \<open>Exception\<close>
  hands over to the rest of the chain, in order; a gateway step makes at most three posts
  and a direct step at most four.
\<close>

theorem dispatch_falls_back:
  "(fail_through net q (fallback_chain pm) w = Some w' \<longrightarrow>
      process_llm_request_with_fallbacks net q pm w =
        (Inr (generate_fallback_response q, Some 0, False, ''fallback''),
         metrics_record_error ''all_llm_methods_failed'' ''fallback'' w'))
   \<and> generate_fallback_response q =
       (if \<exists>word \<in> set [''hello'', ''hi'', ''hey'', ''good morning'', ''good afternoon''].
             \<exists>pre suf. lower q = pre @ word @ suf
        then greeting_response
        else if (\<exists>word \<in> set [''technical'', ''api'', ''code'', ''error'', ''bug'', ''integration''].
                   \<exists>pre suf. lower q = pre @ word @ suf)
                \<or> length q > 100
        then technical_response
        else general_response)
   \<and> greeting_response \<noteq> technical_response \<and> greeting_response \<noteq> general_response
   \<and> technical_response \<noteq> general_response
   \<and> (fst (process_llm_request_with_fallbacks net q pm w) = Inl e \<longrightarrow>
        e = CancelledError \<and> (\<exists>n. net n = Cancelled))
   \<and> ((\<forall>n. net n \<noteq> Cancelled) \<longrightarrow>
        (\<exists>r. fst (process_llm_request_with_fallbacks net q pm w) = Inr r))
   \<and> (fst (call_step net q tr m w) = Some (Inl e2) \<and> is_Exception e2 \<longrightarrow>
        run_chain net q ((tr, m) # rest) w =
          run_chain net q rest
            (metrics_record_error (tr @ ''_failure'') m (snd (call_step net q tr m w))))
   \<and> posts (snd (call_llm_via_kong net q m 2 w)) \<le> posts w + 3
   \<and> posts (snd (call_groq_direct net q m 3 w)) \<le> posts w + 4"
proof -
  have a: "fail_through net q (fallback_chain pm) w = Some w' \<longrightarrow>
      process_llm_request_with_fallbacks net q pm w =
        (Inr (generate_fallback_response q, Some 0, False, ''fallback''),
         metrics_record_error ''all_llm_methods_failed'' ''fallback'' w')"
    using run_chain_all_fail[of net q "fallback_chain pm" w w']
    by (simp add: process_llm_request_with_fallbacks_def)
  have c: "fst (process_llm_request_with_fallbacks net q pm w) = Inl e \<longrightarrow>
        e = CancelledError \<and> (\<exists>n. net n = Cancelled)"
    using run_chain_raises[of net q "fallback_chain pm" w e]
    by (simp add: process_llm_request_with_fallbacks_def)
  have d: "(\<forall>n. net n \<noteq> Cancelled) \<longrightarrow>
        (\<exists>r. fst (process_llm_request_with_fallbacks net q pm w) = Inr r)"
  proof
    assume nc: "\<forall>n. net n \<noteq> Cancelled"
    show "\<exists>r. fst (process_llm_request_with_fallbacks net q pm w) = Inr r"
    proof (cases "fst (process_llm_request_with_fallbacks net q pm w)")
      case (Inl e')
      then show ?thesis
        using run_chain_raises[of net q "fallback_chain pm" w e'] nc
        by (simp add: process_llm_request_with_fallbacks_def)
    next
      case (Inr r)
      then show ?thesis by blast
    qed
  qed
  have f: "fst (call_step net q tr m w) = Some (Inl e2) \<and> is_Exception e2 \<longrightarrow>
        run_chain net q ((tr, m) # rest) w =
          run_chain net q rest
            (metrics_record_error (tr @ ''_failure'') m (snd (call_step net q tr m w)))"
    using run_chain_advance[of net q tr m w e2 rest] by blast
  have g: "posts (snd (call_llm_via_kong net q m 2 w)) \<le> posts w + 3"
    using kong_loop_posts[of net m 2 0 w] by (simp add: call_llm_via_kong_def)
  have h: "posts (snd (call_groq_direct net q m 3 w)) \<le> posts w + 4"
    using groq_loop_posts[of net m 3 0 w] by (simp add: call_groq_direct_def)
  show ?thesis
    using a c d f g h canned_responses_differ
    by (intro conjI) (simp_all only: fallback_buckets[symmetric] simp_thms)
qed

theorem dispatch_falls_back_witness:
  "(\<exists>w'. fail_through dead_network ''hello, is anyone there'' (fallback_chain ''openai/gpt-oss-120b'')
            idle_process = Some w'
        \<and> process_llm_request_with_fallbacks dead_network ''hello, is anyone there''
             ''openai/gpt-oss-120b'' idle_process
           = (Inr (greeting_response, Some 0, False, ''fallback''),
              metrics_record_error ''all_llm_methods_failed'' ''fallback'' w'))
   \<and> fst (process_llm_request_with_fallbacks throttling_network ''my invoice is wrong''
             ''openai/gpt-oss-120b'' idle_process)
       = Inr (general_response, Some 0, False, ''fallback'')
   \<and> generate_fallback_response ''Hey there'' = greeting_response
   \<and> generate_fallback_response ''The API key is rejected'' = technical_response
   \<and> generate_fallback_response (replicate 101 CHR ''z'') = technical_response
   \<and> generate_fallback_response (replicate 100 CHR ''z'') = general_response"
proof -
  obtain w1 where f1: "fail_through dead_network ''hello, is anyone there''
      (fallback_chain ''openai/gpt-oss-120b'') idle_process = Some w1"
    using fail_through_when_calls_fail[of dead_network, OF kong_loop_dead groq_loop_dead]
    by blast
  obtain w2 where f2: "fail_through throttling_network ''my invoice is wrong''
      (fallback_chain ''openai/gpt-oss-120b'') idle_process = Some w2"
    using fail_through_when_calls_fail[of throttling_network,
        OF kong_loop_throttled groq_loop_throttled]
    by blast
  have g1: "generate_fallback_response ''hello, is anyone there'' = greeting_response"
    by code_simp
  have g2: "generate_fallback_response ''my invoice is wrong'' = general_response"
    by code_simp
  have g3: "generate_fallback_response ''Hey there'' = greeting_response"
    by code_simp
  have g4: "generate_fallback_response ''The API key is rejected'' = technical_response"
    by code_simp
  have g5: "generate_fallback_response (replicate 101 CHR ''z'') = technical_response"
    by code_simp
  have g6: "generate_fallback_response (replicate 100 CHR ''z'') = general_response"
    by code_simp
  have d1: "process_llm_request_with_fallbacks dead_network ''hello, is anyone there''
             ''openai/gpt-oss-120b'' idle_process
           = (Inr (greeting_response, Some 0, False, ''fallback''),
              metrics_record_error ''all_llm_methods_failed'' ''fallback'' w1)"
    using dispatch_falls_back [THEN conjunct1, rule_format, OF f1] by (simp only: g1)
  have d2: "fst (process_llm_request_with_fallbacks throttling_network ''my invoice is wrong''
             ''openai/gpt-oss-120b'' idle_process)
       = Inr (general_response, Some 0, False, ''fallback'')"
    using dispatch_falls_back [THEN conjunct1, rule_format, OF f2] by (simp only: g2 fst_conv)
  show ?thesis using f1 d1 d2 g3 g4 g5 g6 by blast
qed

text \<open>
  Claim C1 as stated lets no exception reach the caller once every step raises. On
  \<open>cancelling_network\<close> every step of the chain raises \<open>CancelledError\<close>, which
  neither the call functions nor the dispatch catch: the first step's exception leaves
  the dispatch after one post, and no canned answer is returned.
\<close>

theorem cancelled_dispatch_raises:
  "list_all (\<lambda>(tr, m). fst (call_step cancelling_network ''hello'' tr m idle_process)
                          = Some (Inl CancelledError))
     (fallback_chain ''openai/gpt-oss-120b'')
   \<and> process_llm_request_with_fallbacks cancelling_network ''hello'' ''openai/gpt-oss-120b''
         idle_process
       = (Inl CancelledError, idle_process\<lparr>posts := 1\<rparr>)"
proof -
  have k: "call_step cancelling_network ''hello'' ''kong'' m idle_process
             = (Some (Inl CancelledError), idle_process\<lparr>posts := 1\<rparr>)" for m
    by (simp add: call_step_def call_llm_via_kong_def kong_loop.simps[of _ _ 2 0]
          post_def cancelling_network_reply idle_process_def)
  have g: "call_step cancelling_network ''hello'' ''direct'' m idle_process
             = (Some (Inl CancelledError), idle_process\<lparr>posts := 1\<rparr>)" for m
    by (simp add: call_step_def call_groq_direct_def groq_loop.simps[of _ _ 3 0]
          post_def cancelling_network_reply idle_process_def)
  have "process_llm_request_with_fallbacks cancelling_network ''hello'' ''openai/gpt-oss-120b''
         idle_process
       = (Inl CancelledError, idle_process\<lparr>posts := 1\<rparr>)"
    by (simp add: process_llm_request_with_fallbacks_def fallback_chain_def k)
  then show ?thesis by (simp add: fallback_chain_def k g)
qed




subsection \<open>Complexity score\<close>

lemma lower_char_idem: "lower_char (lower_char c) = lower_char c"
  by (auto simp: lower_char_def Let_def)

lemma lower_char_space: "is_space c \<Longrightarrow> lower_char c = c"
  by (auto simp: lower_char_def is_space_def Let_def)

lemma lower_idem: "lower (lower s) = lower s"
  by (simp add: lower_def lower_char_idem)

lemma set_strip: "set (strip s) \<subseteq> set s"
proof -
  have "set (dropWhile is_space (rev (dropWhile is_space s))) \<subseteq> set (rev (dropWhile is_space s))"
    by (rule set_dropWhileD[THEN subsetI]) 
  also have "\<dots> \<subseteq> set s" by (auto dest: set_dropWhileD)
  finally show ?thesis by (simp add: strip_def)
qed

lemma lower_strip_lower: "lower (strip (lower s)) = strip (lower s)"
proof -
  have "\<forall>c \<in> set (strip (lower s)). lower_char c = c"
    using set_strip[of "lower s"] by (auto simp: lower_def lower_char_idem)
  then show ?thesis by (simp add: lower_def map_idI)
qed

lemma strip_Nil_iff: "strip s = [] \<longleftrightarrow> (\<forall>c \<in> set s. is_space c)"
proof (cases "dropWhile is_space s")
  case Nil
  then have "\<forall>c \<in> set s. is_space c" by (simp only: dropWhile_eq_Nil_conv)
  moreover have "strip s = []" by (simp add: strip_def Nil)
  ultimately show ?thesis by simp
next
  case (Cons c rest)
  then have c: "\<not> is_space c" "c \<in> set s"
    using hd_dropWhile[of is_space s] set_dropWhileD[of c is_space s] by auto
  have "dropWhile is_space (rev rest @ [c]) \<noteq> []"
    using c(1) by (simp add: dropWhile_eq_Nil_conv)
  then show ?thesis using c by (auto simp: strip_def Cons)
qed

lemma blank_iff: "blank s \<longleftrightarrow> (\<forall>c \<in> set s. is_space c)"
  by (auto simp: blank_def strip_Nil_iff)

lemma blank_analysed: "blank s \<Longrightarrow> strip (lower (take n s)) = []"
proof -
  assume "blank s"
  then have "\<forall>c \<in> set (lower (take n s)). is_space c"
    by (auto simp: blank_iff lower_def lower_char_space dest: in_set_takeD)
  then show ?thesis by (simp only: strip_Nil_iff)
qed

lemma any_pattern_matches_ex: "any_pattern_matches ps q = list_ex (\<lambda>p. re_search p q) ps"
  by (induction ps) auto

lemma weight_lookup: "map_of complexity_weights ty = Some (spec_weight ty)"
  by (cases ty) (simp_all add: complexity_weights_def spec_weight_def)

lemma question_type_refines: "analyze_question_type q = spec_question_type q"
  by (simp add: analyze_question_type_def spec_question_type_def spec_groups_def
        any_pattern_matches_ex)

lemma spec_complexity_empty: "spec_complexity [] = 0"
  by code_simp

lemma calculate_complexity_refines: "calculate_complexity t = spec_complexity (take 10000 t)"
proof (cases "blank t")
  case True
  then have "strip (lower (take 10000 t)) = []" by (rule blank_analysed)
  moreover have "spec_complexity [] = 0" by (rule spec_complexity_empty)
  moreover have "strip (lower []) = []" by (simp add: strip_def lower_def)
  ultimately have "spec_complexity (take 10000 t) = 0"
    by (simp add: spec_complexity_def)
  then show ?thesis using True by (simp add: calculate_complexity_def)
next
  case False
  have q1: "(if length t > 10000 then take 10000 t else t) = take 10000 t" by simp
  show ?thesis
    using False
    by (simp only: calculate_complexity_def q1 spec_complexity_def Let_def if_False
          calculate_length_score_def calculate_technical_score_def count_technical_terms_def
          analyze_question_type_score_def question_type_refines weight_lookup
          lower_strip_lower option.case)
qed

lemma calculate_complexity_bounds: "0 \<le> calculate_complexity t \<and> calculate_complexity t \<le> 1"
proof -
  have "0 \<le> spec_weight ty" for ty by (cases ty) (simp_all add: spec_weight_def)
  then show ?thesis
    by (simp add: calculate_complexity_refines spec_complexity_def Let_def add_nonneg_nonneg)
qed

lemma strip_lower_padding:
  "strip (lower (replicate n CHR '' '' @ s)) = strip (lower s)"
proof -
  have sp: "is_space CHR '' ''" by (simp add: is_space_def)
  have "lower (replicate n CHR '' '' @ s) = replicate n CHR '' '' @ lower s"
    using lower_char_space[OF sp] by (simp add: lower_def)
  moreover have "dropWhile is_space (replicate n CHR '' '' @ lower s) = dropWhile is_space (lower s)"
    by (rule dropWhile_append2) (simp add: sp)
  ultimately show ?thesis by (simp add: strip_def)
qed


text \<open>
  Claim C8, as the code has it. For every text the score is the one the specification
  words, computed on the first 10000 characters of the text: the sum, capped at 1, of
  \<open>min(wordCount/40, 0.5)\<close>, \<open>min(technicalTermCount/8 * 0.4, 0.4)\<close> and the weight
  of the question type, which is that of the first group with a matching pattern in the
  order simple, integration, troubleshooting, multi-step, technical, or else comes from
  the test on length and keywords. A text of at most 10000 characters is scored as a
  whole. The score always lies between 0 and 1.
\<close>

theorem complexity_formula:
  "calculate_complexity t = spec_complexity (take 10000 t)
   \<and> (length t \<le> 10000 \<longrightarrow> calculate_complexity t = spec_complexity t)
   \<and> 0 \<le> calculate_complexity t \<and> calculate_complexity t \<le> 1"
  using calculate_complexity_refines[of t] calculate_complexity_bounds[of t] by simp


theorem complexity_formula_witness:
  "length ''What are your business hours?'' \<le> 10000
   \<and> calculate_complexity ''What are your business hours?'' = 1 / 8
   \<and> spec_complexity ''What are your business hours?'' = 1 / 8
   \<and> spec_question_type ''what are your business hours?'' = SIMPLE_FAQ"
proof -
  have l: "length ''What are your business hours?'' \<le> 10000" by simp
  have s: "spec_complexity ''What are your business hours?'' = 1 / 8" by code_simp
  have q: "spec_question_type ''what are your business hours?'' = SIMPLE_FAQ" by code_simp
  show ?thesis
    using l s q complexity_formula [of "''What are your business hours?''"] by simp
qed


text \<open>
  Claim C8 as stated takes the counts on the whole text. \<open>padded_text\<close> has 10003
  characters, one word and one technical term, which the formula scores 0.225; the
  analyzer cuts the text after its first 10000 characters, all blank, and scores 0.
\<close>

theorem long_text_scored_on_prefix:
  "length padded_text = 10003
   \<and> calculate_complexity padded_text = 0
   \<and> spec_complexity padded_text = 9 / 40"
proof -
  have "take 10000 padded_text = replicate 10000 CHR '' ''"
    by (simp add: padded_text_def)
  then have "calculate_complexity padded_text = spec_complexity (replicate 10000 CHR '' '' @ [])"
    by (simp add: calculate_complexity_refines)
  also have "\<dots> = spec_complexity []"
    by (simp only: spec_complexity_def strip_lower_padding)
  finally have c: "calculate_complexity padded_text = 0" by (simp add: spec_complexity_empty)
  have "spec_complexity padded_text = spec_complexity ''api''"
    by (simp only: spec_complexity_def padded_text_def strip_lower_padding)
  also have "\<dots> = 9 / 40" by code_simp
  finally show ?thesis using c by (simp add: padded_text_def)
qed

end
